theory Spec2Isabelle
  imports Main "HOL-Library.Word"
begin

unbundle bit_operations_syntax

section \<open>Common data\<close>

text \<open>
  A \<open>Uint8Array\<close> is a list of 8-bit words. A JavaScript string is a \<open>string\<close> read as
  its sequence of UTF-8 bytes; case mapping acts on the ASCII letters. A \<open>BigInt\<close> that
  never goes negative is a \<open>nat\<close>; a JavaScript number holding an integer
  (a millisecond time, a tolerance, a credit amount) is an \<open>int\<close>.
\<close>

type_synonym byte = "8 word"

text \<open>
  The source throws \<open>Error\<close> objects told apart by their message; the constructors carry
  the names the specification gives to them:
  \<^item> \<open>InvalidMultibasePrefix\<close>: "Invalid multibase format: must start with z"
  \<^item> \<open>InvalidBase58Character c\<close>: "Invalid base58 character: c"
  \<^item> \<open>InvalidKeyCodec\<close>: "Invalid Ed25519 multicodec prefix"
  \<^item> \<open>NoVerificationMethod\<close>: "No verification methods found in DID document"
  \<^item> \<open>MethodNotSupported\<close>: "Only did:web method is supported"
\<close>

datatype error =
    InvalidMultibasePrefix
  | InvalidBase58Character char
  | InvalidKeyCodec
  | NoVerificationMethod
  | MethodNotSupported

text \<open>\<open>String.prototype.indexOf\<close> for a one-character needle; \<open>None\<close> is the result -1.\<close>

fun indexOf :: "'a list \<Rightarrow> 'a \<Rightarrow> nat option" where
  "indexOf [] c = None"
| "indexOf (x # xs) c = (if x = c then Some 0 else map_option Suc (indexOf xs c))"

text \<open>\<open>s.startsWith(p)\<close>\<close>

definition startsWith :: "string \<Rightarrow> string \<Rightarrow> bool" where
  "startsWith s p \<longleftrightarrow> take (length p) s = p"

section \<open>Base58 and multibase keys (packages/did/src/utils.ts)\<close>

definition BASE58_ALPHABET :: string where
  "BASE58_ALPHABET = ''123456789ABCDEFGHJKLMNPQRSTUVWXYZabcdefghijkmnopqrstuvwxyz''"

text \<open>\<open>for (const byte of bytes) num = num * 256n + BigInt(byte)\<close>\<close>

definition bytes_to_num :: "byte list \<Rightarrow> nat" where
  "bytes_to_num bytes = foldl (\<lambda>num b. num * 256 + unat b) 0 bytes"

text \<open>\<open>while (num > 0n) { result = ALPHABET[num % 58n] + result; num = num / 58n }\<close>\<close>

function num_to_base58 :: "nat \<Rightarrow> string \<Rightarrow> string" where
  "num_to_base58 num result =
     (if num > 0 then num_to_base58 (num div 58) (BASE58_ALPHABET ! (num mod 58) # result)
      else result)"
  by pat_completeness auto
termination
  by (relation "measure fst") auto

text \<open>The loop that prepends the first alphabet character once per leading zero byte.\<close>

fun add_leading_zeros :: "byte list \<Rightarrow> string \<Rightarrow> string" where
  "add_leading_zeros [] result = result"
| "add_leading_zeros (b # bs) result =
     (if b = 0 then add_leading_zeros bs (BASE58_ALPHABET ! 0 # result) else result)"

definition encodeBase58 :: "byte list \<Rightarrow> string" where
  "encodeBase58 bytes =
     (if length bytes = 0 then []
      else add_leading_zeros bytes (num_to_base58 (bytes_to_num bytes) []))"

text \<open>The loop that counts the leading occurrences of the first alphabet character.\<close>

fun count_leading_zeros :: "string \<Rightarrow> nat" where
  "count_leading_zeros [] = 0"
| "count_leading_zeros (c # cs) =
     (if c = BASE58_ALPHABET ! 0 then Suc (count_leading_zeros cs) else 0)"

text \<open>
  \<open>for (const char of str) { digit = ALPHABET.indexOf(char); if (digit === -1) throw ...;
  num = num * 58n + BigInt(digit) }\<close>
\<close>

fun base58_to_num :: "string \<Rightarrow> nat \<Rightarrow> error + nat" where
  "base58_to_num [] num = Inr num"
| "base58_to_num (c # cs) num =
     (case indexOf BASE58_ALPHABET c of
        None \<Rightarrow> Inl (InvalidBase58Character c)
      | Some digit \<Rightarrow> base58_to_num cs (num * 58 + digit))"

text \<open>\<open>while (num > 0n) { bytes.unshift(Number(num % 256n)); num = num / 256n }\<close>\<close>

function num_to_bytes :: "nat \<Rightarrow> byte list \<Rightarrow> byte list" where
  "num_to_bytes num bytes =
     (if num > 0 then num_to_bytes (num div 256) (of_nat (num mod 256) # bytes)
      else bytes)"
  by pat_completeness auto
termination
  by (relation "measure fst") auto

definition decodeBase58 :: "string \<Rightarrow> error + byte list" where
  "decodeBase58 str =
     (if length str = 0 then Inr []
      else case base58_to_num str 0 of
             Inl e \<Rightarrow> Inl e
           | Inr num \<Rightarrow> Inr (replicate (count_leading_zeros str) 0 @ num_to_bytes num []))"

definition publicKeyToMultibase :: "byte list \<Rightarrow> string" where
  "publicKeyToMultibase publicKey =
     (let prefixed = [0xed, 0x01] @ publicKey
      in CHR ''z'' # encodeBase58 prefixed)"

definition multibaseToPublicKey :: "string \<Rightarrow> error + byte list" where
  "multibaseToPublicKey multibase =
     (if \<not> startsWith multibase ''z'' then Inl InvalidMultibasePrefix
      else case decodeBase58 (drop 1 multibase) of
             Inl e \<Rightarrow> Inl e
           | Inr decoded \<Rightarrow>
               if length decoded < 34 \<or> decoded ! 0 \<noteq> 0xed \<or> decoded ! 1 \<noteq> 0x01
               then Inl InvalidKeyCodec
               else Inr (drop 2 decoded))"

declare num_to_base58.simps [simp del]
declare num_to_bytes.simps [simp del]

section \<open>URL-safe base64 (packages/crypto/src/keys.ts, request.ts)\<close>

text \<open>
  The runtime's \<open>Buffer.from(data).toString('base64')\<close>: standard base64 with padding.
\<close>

definition BASE64_ALPHABET :: string where
  "BASE64_ALPHABET = ''ABCDEFGHIJKLMNOPQRSTUVWXYZabcdefghijklmnopqrstuvwxyz0123456789+/''"

definition b64char :: "byte \<Rightarrow> char" where
  "b64char w = BASE64_ALPHABET ! unat w"

fun to_base64 :: "byte list \<Rightarrow> string" where
  "to_base64 [] = []"
| "to_base64 [a] =
     [b64char (drop_bit 2 a), b64char (push_bit 4 (a AND 3)), CHR ''='', CHR ''='']"
| "to_base64 [a, b] =
     [b64char (drop_bit 2 a), b64char (push_bit 4 (a AND 3) OR drop_bit 4 b),
      b64char (push_bit 2 (b AND 15)), CHR ''='']"
| "to_base64 (a # b # c # rest) =
     [b64char (drop_bit 2 a), b64char (push_bit 4 (a AND 3) OR drop_bit 4 b),
      b64char (push_bit 2 (b AND 15) OR drop_bit 6 c), b64char (c AND 63)] @ to_base64 rest"

text \<open>
  The runtime's \<open>Buffer.from(s, 'base64')\<close>: decoding stops at the first \<open>=\<close>, characters
  outside the alphabet are skipped, the URL-safe characters are accepted too, and an
  incomplete last group gives the bytes its characters determine.
\<close>

definition unbase64 :: "char \<Rightarrow> byte option" where
  "unbase64 c =
     (if c = CHR ''-'' then Some 62
      else if c = CHR ''_'' then Some 63
      else map_option of_nat (indexOf BASE64_ALPHABET c))"

fun decode_groups :: "byte list \<Rightarrow> byte list" where
  "decode_groups (a # b # c # d # rest) =
     [push_bit 2 a OR drop_bit 4 b, push_bit 4 b OR drop_bit 2 c, push_bit 6 c OR d]
     @ decode_groups rest"
| "decode_groups [a, b, c] = [push_bit 2 a OR drop_bit 4 b, push_bit 4 b OR drop_bit 2 c]"
| "decode_groups [a, b] = [push_bit 2 a OR drop_bit 4 b]"
| "decode_groups _ = []"

definition from_base64 :: "string \<Rightarrow> byte list" where
  "from_base64 s =
     decode_groups (List.map_filter unbase64 (takeWhile (\<lambda>c. c \<noteq> CHR ''='') s))"

text \<open>\<open>s.replace(/c/g, d)\<close> for single characters \<open>c\<close> and \<open>d\<close>, and \<open>s.replace(/c/g, '')\<close>.\<close>

definition replace_all :: "char \<Rightarrow> char \<Rightarrow> string \<Rightarrow> string" where
  "replace_all c d s = map (\<lambda>x. if x = c then d else x) s"

definition remove_all :: "char \<Rightarrow> string \<Rightarrow> string" where
  "remove_all c s = filter (\<lambda>x. x \<noteq> c) s"

definition base64urlEncode :: "byte list \<Rightarrow> string" where
  "base64urlEncode data =
     (let base64 = to_base64 data
      in remove_all CHR ''=''
           (replace_all CHR ''/'' CHR ''_'' (replace_all CHR ''+'' CHR ''-'' base64)))"

definition base64urlDecode :: "string \<Rightarrow> byte list" where
  "base64urlDecode encoded =
     (let base64 = replace_all CHR ''_'' CHR ''/'' (replace_all CHR ''-'' CHR ''+'' encoded);
          padding = length base64 mod 4;
          base64 = (if padding = 2 then base64 @ ''==''
                    else if padding = 3 then base64 @ ''=''
                    else base64)
      in from_base64 base64)"

section \<open>Strings and numbers of the runtime\<close>

definition toLowerCase :: "string \<Rightarrow> string" where
  "toLowerCase s =
     map (\<lambda>c. let n = (of_char c :: nat) in if 65 \<le> n \<and> n \<le> 90 then char_of (n + 32) else c) s"

definition toUpperCase :: "string \<Rightarrow> string" where
  "toUpperCase s =
     map (\<lambda>c. let n = (of_char c :: nat) in if 97 \<le> n \<and> n \<le> 122 then char_of (n - 32) else c) s"

text \<open>\<open>s.split(sep)\<close> for a one-character separator: never the empty list.\<close>

fun split :: "char \<Rightarrow> string \<Rightarrow> string list" where
  "split sep [] = [[]]"
| "split sep (c # cs) =
     (if c = sep then [] # split sep cs
      else case split sep cs of
             [] \<Rightarrow> [[c]]
           | p # ps \<Rightarrow> (c # p) # ps)"

text \<open>\<open>parts.join(sep)\<close>\<close>

fun join :: "string \<Rightarrow> string list \<Rightarrow> string" where
  "join sep [] = []"
| "join sep [p] = p"
| "join sep (p # q # ps) = p @ sep @ join sep (q # ps)"

text \<open>\<open>new TextEncoder().encode(s)\<close>: the UTF-8 bytes of the string.\<close>

definition utf8_encode :: "string \<Rightarrow> byte list" where
  "utf8_encode s = map (\<lambda>c. of_nat (of_char c)) s"

text \<open>
  \<open>n.toString()\<close> and \<open>`${n}`\<close> for a number holding an integer: the decimal digits, with
  a minus sign for a negative value. (The runtime prints so below \<open>10^21\<close>.)
\<close>

definition digit_char :: "nat \<Rightarrow> char" where
  "digit_char d = char_of (48 + d)"

function nat_toString :: "nat \<Rightarrow> string" where
  "nat_toString n =
     (if n < 10 then [digit_char n] else nat_toString (n div 10) @ [digit_char (n mod 10)])"
  by pat_completeness auto
termination
  by (relation "measure id") auto

declare nat_toString.simps [simp del]

definition number_toString :: "int \<Rightarrow> string" where
  "number_toString n =
     (if n < 0 then CHR ''-'' # nat_toString (nat (- n)) else nat_toString (nat n))"


text \<open>
  \<open>Number.parseInt(string, radix)\<close> with radix 10, 16 or absent (\<open>None\<close>): leading white
  space is skipped, one sign is read, a \<open>0x\<close> prefix is removed when the radix is 16 or
  absent (and then selects radix 16), and the longest prefix of digits is the value.
  \<open>None\<close> is the result \<open>NaN\<close>.
\<close>

definition isWhiteSpace :: "char \<Rightarrow> bool" where
  "isWhiteSpace c \<longleftrightarrow> (of_char c :: nat) \<in> {9, 10, 11, 12, 13, 32}"

definition digit_value :: "char \<Rightarrow> nat option" where
  "digit_value c =
     (let n = (of_char c :: nat)
      in if 48 \<le> n \<and> n \<le> 57 then Some (n - 48)
         else if 97 \<le> n \<and> n \<le> 122 then Some (n - 87)
         else if 65 \<le> n \<and> n \<le> 90 then Some (n - 55)
         else None)"

definition is_digit :: "nat \<Rightarrow> char \<Rightarrow> bool" where
  "is_digit radix c = (case digit_value c of None \<Rightarrow> False | Some d \<Rightarrow> d < radix)"

definition digits_value :: "nat \<Rightarrow> string \<Rightarrow> nat" where
  "digits_value radix Z =
     foldl (\<lambda>acc c. acc * radix + (case digit_value c of None \<Rightarrow> 0 | Some d \<Rightarrow> d)) 0 Z"

definition parseInt :: "string \<Rightarrow> nat option \<Rightarrow> int option" where
  "parseInt string radix =
     (let S = dropWhile isWhiteSpace string;
          sign = (if S \<noteq> [] \<and> hd S = CHR ''-'' then - 1 else (1::int));
          S = (if S \<noteq> [] \<and> (hd S = CHR ''+'' \<or> hd S = CHR ''-'') then tl S else S);
          stripPrefix = (radix \<noteq> Some 10) \<and> (startsWith S ''0x'' \<or> startsWith S ''0X'');
          R = (if stripPrefix then 16 else (case radix of None \<Rightarrow> 10 | Some r \<Rightarrow> r));
          S = (if stripPrefix then drop 2 S else S);
          Z = takeWhile (is_digit R) S
      in if Z = [] then None else Some (sign * int (digits_value R Z)))"

text \<open>\<open>bytesToHex\<close> of @noble/hashes: two lower-case hexadecimal digits per byte.\<close>

definition hex_digit :: "nat \<Rightarrow> char" where
  "hex_digit d = ''0123456789abcdef'' ! d"

definition bytesToHex :: "byte list \<Rightarrow> string" where
  "bytesToHex bytes = concat (map (\<lambda>b. [hex_digit (unat b div 16), hex_digit (unat b mod 16)]) bytes)"

section \<open>DID documents and resolution (packages/did/src/utils.ts, resolve.ts)\<close>

text \<open>\<open>/^did:[a-z0-9]+:[a-zA-Z0-9._:%-]+$/.test(did)\<close>\<close>

definition is_lower :: "char \<Rightarrow> bool" where
  "is_lower c \<longleftrightarrow> 97 \<le> (of_char c :: nat) \<and> (of_char c :: nat) \<le> 122"

definition is_upper :: "char \<Rightarrow> bool" where
  "is_upper c \<longleftrightarrow> 65 \<le> (of_char c :: nat) \<and> (of_char c :: nat) \<le> 90"

definition is_decimal :: "char \<Rightarrow> bool" where
  "is_decimal c \<longleftrightarrow> 48 \<le> (of_char c :: nat) \<and> (of_char c :: nat) \<le> 57"

definition is_method_char :: "char \<Rightarrow> bool" where
  "is_method_char c \<longleftrightarrow> is_lower c \<or> is_decimal c"

definition is_id_char :: "char \<Rightarrow> bool" where
  "is_id_char c \<longleftrightarrow> is_lower c \<or> is_upper c \<or> is_decimal c \<or> c \<in> set ''._:%-''"

definition isValidDID :: "string \<Rightarrow> bool" where
  "isValidDID did \<longleftrightarrow>
     startsWith did ''did:'' \<and>
     (let rest = drop 4 did;
          method = takeWhile is_method_char rest;
          after = dropWhile is_method_char rest
      in method \<noteq> [] \<and> after \<noteq> [] \<and> hd after = CHR '':'' \<and>
         tl after \<noteq> [] \<and> list_all is_id_char (tl after))"

definition getWellKnownUrl :: "string \<Rightarrow> error + string" where
  "getWellKnownUrl did =
     (if \<not> startsWith did ''did:web:'' then Inl MethodNotSupported
      else let identifier = drop 8 did;
               parts = split CHR '':'' identifier;
               domain = hd parts;
               pathParts = drop 1 parts
           in if length pathParts = 0
              then Inr (''https://'' @ domain @ ''/.well-known/did.json'')
              else let path = join ''/'' pathParts
                   in Inr (''https://'' @ domain @ ''/'' @ path @ ''/did.json''))"

text \<open>
  What \<open>response.json()\<close> gives: a JSON value. An object is its list of members in
  document order; of two members with one name the later one is the property's value.
\<close>

datatype json =
    JNull
  | JBool bool
  | JNumber int
  | JString string
  | JArray "json list"
  | JObject "(string \<times> json) list"

text \<open>
  \<open>value.id\<close>: a \<open>TypeError\<close> (\<open>None\<close>) on \<open>null\<close>; \<open>undefined\<close> (\<open>Some None\<close>) where the
  value has no such property.
\<close>

fun get_id :: "json \<Rightarrow> json option option" where
  "get_id JNull = None"
| "get_id (JObject members) = Some (map_of (rev members) ''id'')"
| "get_id _ = Some None"

text \<open>
  The network: \<open>fetch(url)\<close> either rejects (DNS, TLS, timeout) or resolves to a response
  with a status, a body that parses as JSON or does not (\<open>None\<close>), and two headers.
\<close>

record response =
  resp_status :: nat
  resp_json :: "json option"
  resp_content_type :: "string option"
  resp_last_modified :: "string option"

datatype fetch_result = Rejected | Resolved response

definition resp_ok :: "response \<Rightarrow> bool" where
  "resp_ok r \<longleftrightarrow> 200 \<le> resp_status r \<and> resp_status r \<le> 299"

datatype resolution_error =
  invalidDid | methodNotSupported | notFound | internalError | invalidDidDocument

record DIDResolutionResult =
  didDocument :: "json option"
  res_error :: "resolution_error option"
  res_contentType :: "string option"
  res_updated :: "string option"

definition resolution_failure :: "resolution_error \<Rightarrow> DIDResolutionResult" where
  "resolution_failure e =
     \<lparr>didDocument = None, res_error = Some e, res_contentType = None, res_updated = None\<rparr>"

text \<open>\<open>headers.get(name) || undefined\<close>: an empty header value counts as absent.\<close>

definition or_undefined :: "string option \<Rightarrow> string option" where
  "or_undefined v = (case v of None \<Rightarrow> None | Some s \<Rightarrow> if s = [] then None else Some s)"

definition resolveDID :: "(string \<Rightarrow> fetch_result) \<Rightarrow> string \<Rightarrow> DIDResolutionResult" where
  "resolveDID fetch did =
     (if \<not> isValidDID did then resolution_failure invalidDid
      else if \<not> startsWith did ''did:web:'' then resolution_failure methodNotSupported
      else case getWellKnownUrl did of
             Inl e \<Rightarrow> resolution_failure internalError
           | Inr url \<Rightarrow>
              (case fetch url of
                 Rejected \<Rightarrow> resolution_failure internalError
               | Resolved response \<Rightarrow>
                   if \<not> resp_ok response
                   then resolution_failure
                          (if resp_status response = 404 then notFound else internalError)
                   else (case resp_json response of
                           None \<Rightarrow> resolution_failure internalError
                         | Some document \<Rightarrow>
                            (case get_id document of
                               None \<Rightarrow> resolution_failure internalError
                             | Some document_id \<Rightarrow>
                                 if document_id \<noteq> Some (JString did)
                                 then resolution_failure invalidDidDocument
                                 else \<lparr>didDocument = Some document, res_error = None,
                                       res_contentType = or_undefined (resp_content_type response),
                                       res_updated = or_undefined (resp_last_modified response)\<rparr>))))"

section \<open>Request signing and verification (packages/crypto/src/request.ts, verify.ts)\<close>

text \<open>
  The primitives the package takes from @noble/hashes and @noble/ed25519, as parameters:
  the SHA-256 digest, the Ed25519 signature of a message under a private key, and the
  Ed25519 check of a signature over a message against a public key, which may throw
  (\<open>None\<close>).

  Modelled from the spec: \<open>signMessage\<close> of sign.ts is not among the sources. The
  specification describes it as the signing capability \<open>sign(message, key) -> signature\<close>
  that produces a 64-byte signature; it is the field \<open>signMessage\<close> here, and nothing
  about it is assumed but what a theorem states as a hypothesis.
\<close>

record platform =
  sha256 :: "byte list \<Rightarrow> byte list"
  signMessage :: "byte list \<Rightarrow> byte list \<Rightarrow> byte list"
  ed25519_verify :: "byte list \<Rightarrow> byte list \<Rightarrow> byte list \<Rightarrow> bool option"

text \<open>\<open>verifySignature\<close>: an exception of the primitive counts as a failed check.\<close>

definition verifySignature :: "platform \<Rightarrow> byte list \<Rightarrow> byte list \<Rightarrow> byte list \<Rightarrow> bool" where
  "verifySignature P message signature publicKey =
     (case ed25519_verify P signature message publicKey of
        None \<Rightarrow> False
      | Some ok \<Rightarrow> ok)"

definition DEFAULT_TOLERANCE_MS :: int where
  "DEFAULT_TOLERANCE_MS = 5 * 60 * 1000"

record SignableRequest =
  req_method :: string
  req_url :: string
  req_body :: "string option"
  req_timestamp :: "int option"


text \<open>
  A \<open>Record<string, string>\<close> of headers is the list of its entries, in the order
  \<open>Object.entries\<close> gives them.
\<close>

type_synonym headers = "(string \<times> string) list"

record VerificationResult =
  ver_valid :: bool
  ver_error :: "string option"
  expiredTimestamp :: "bool option"

definition verification_failure :: "string \<Rightarrow> VerificationResult" where
  "verification_failure message =
     \<lparr>ver_valid = False, ver_error = Some message, expiredTimestamp = None\<rparr>"

text \<open>\<open>Date.now()\<close> is the parameter \<open>now\<close> of every function that reads the clock.\<close>

definition createCanonicalString :: "platform \<Rightarrow> int \<Rightarrow> SignableRequest \<Rightarrow> string" where
  "createCanonicalString P now request =
     (let method = toUpperCase (req_method request);
          url = req_url request;
          timestamp = (case req_timestamp request of None \<Rightarrow> now | Some t \<Rightarrow> t);
          bodyHash = (case req_body request of
                        None \<Rightarrow> []
                      | Some body \<Rightarrow> base64urlEncode (sha256 P (utf8_encode body)))
      in method @ [CHR 0x0A] @ url @ [CHR 0x0A] @ number_toString timestamp @ [CHR 0x0A]
         @ bodyHash)"


fun getHeader :: "headers \<Rightarrow> string \<Rightarrow> string option" where
  "getHeader [] name = None"
| "getHeader ((key, v) # rest) name =
     (if toLowerCase key = toLowerCase name then Some v else getHeader rest name)"

text \<open>
  \<open>verifyRequest\<close>. \<open>!signature\<close> holds for an absent header and for an empty value. The
  optional \<open>toleranceMs\<close> is \<open>None\<close> when the caller leaves it out. Nothing in the \<open>try\<close>
  block throws on strings, so the \<open>catch\<close> has no branch here.
\<close>

definition verifyRequest ::
  "platform \<Rightarrow> int \<Rightarrow> headers \<Rightarrow> byte list \<Rightarrow> string option \<Rightarrow> int option \<Rightarrow> VerificationResult"
where
  "verifyRequest P now headers publicKey body tolerance =
     (let toleranceMs = (case tolerance of None \<Rightarrow> DEFAULT_TOLERANCE_MS | Some t \<Rightarrow> t);
          signature = getHeader headers ''X-Agent-Signature'';
          timestamp = getHeader headers ''X-Agent-Timestamp''
      in case signature of
           None \<Rightarrow> verification_failure ''Missing X-Agent-Signature header''
         | Some signature \<Rightarrow>
             if signature = [] then verification_failure ''Missing X-Agent-Signature header''
             else case timestamp of
               None \<Rightarrow> verification_failure ''Missing X-Agent-Timestamp header''
             | Some timestamp \<Rightarrow>
                 if timestamp = [] then verification_failure ''Missing X-Agent-Timestamp header''
                 else case parseInt timestamp (Some 10) of
                   None \<Rightarrow> verification_failure ''Invalid timestamp format''
                 | Some timestampNum \<Rightarrow>
                     let diff = \<bar>now - timestampNum\<bar>
                     in if diff > toleranceMs
                        then \<lparr>ver_valid = False,
                              ver_error = Some ''Timestamp outside tolerance window'',
                              expiredTimestamp = Some True\<rparr>
                        else
                          let method = (case getHeader headers ''X-Agent-Method'' of
                                          None \<Rightarrow> ''POST'' | Some m \<Rightarrow> m);
                              url = (case getHeader headers ''X-Agent-URL'' of
                                       None \<Rightarrow> ''/'' | Some u \<Rightarrow> u);
                              request = \<lparr>req_method = method, req_url = url, req_body = body,
                                         req_timestamp = Some timestampNum\<rparr>;
                              canonical = createCanonicalString P now request;
                              message = utf8_encode canonical;
                              signatureBytes = base64urlDecode signature;
                              valid = verifySignature P message signatureBytes publicKey
                          in if \<not> valid then verification_failure ''Invalid signature''
                             else \<lparr>ver_valid = True, ver_error = None,
                                   expiredTimestamp = None\<rparr>)"

section \<open>The registry database (supabase/migrations)\<close>

text \<open>
  The tables the verification and credit operations touch. \<open>agents\<close> has a unique
  \<open>did\<close> and \<open>signature_cache\<close> has \<open>signature_hash\<close> as its primary key, so each is a
  map from that key to the rest of the row; \<open>credit_ledger\<close> is the list of its rows in
  insertion order. The columns of \<open>agents\<close> that no operation here reads (description,
  guardian, trust score, capabilities, metadata, DID document, dates) are left out.
  Times are milliseconds. \<open>fault\<close> is the storage layer failing: when it is set, every
  query of the client returns that error code and message and no data, and writes
  nothing.
\<close>

datatype agent_status = active | suspended | revoked

datatype credit_event_type =
  registration | pr_merged | pr_rejected | test_failure | security_issue | manual_adjustment

record AgentRow =
  row_id :: string
  row_public_key :: string
  row_name :: string
  row_status :: agent_status
  row_credits :: int

record SignatureCacheRow =
  cache_agent_did :: string
  cache_timestamp :: int
  cache_created_at :: int

record CreditLedgerRow =
  ledger_id :: string
  ledger_agent_id :: string
  ledger_event_type :: credit_event_type
  ledger_amount :: int
  ledger_balance_after :: int
  ledger_reason :: string
  ledger_pr_url :: "string option"
  ledger_created_at :: int

record database =
  agents :: "string \<rightharpoonup> AgentRow"
  signature_cache :: "string \<rightharpoonup> SignatureCacheRow"
  credit_ledger :: "CreditLedgerRow list"
  fault :: "(string \<times> string) option"

text \<open>
  What the client returns for \<open>.select(...).eq(key, v).single()\<close>: the row, or an error
  with a code and a message; no row is the error code \<open>PGRST116\<close>.
\<close>

datatype 'a query_result = Data 'a | QueryError string string

definition select_single :: "database \<Rightarrow> (string \<rightharpoonup> 'a) \<Rightarrow> string \<Rightarrow> 'a query_result" where
  "select_single db table k =
     (case fault db of
        Some (code, message) \<Rightarrow> QueryError code message
      | None \<Rightarrow>
         (case table k of
            None \<Rightarrow> QueryError ''PGRST116'' ''JSON object requested, multiple (or no) rows returned''
          | Some row \<Rightarrow> Data row))"

text \<open>
  \<open>from('signature_cache').insert(row)\<close>: the primary key refuses a second row with the
  same hash. The caller does not look at the outcome.
\<close>

definition insert_signature_cache :: "database \<Rightarrow> string \<Rightarrow> SignatureCacheRow \<Rightarrow> database" where
  "insert_signature_cache db signature_hash row =
     (if fault db \<noteq> None \<or> signature_cache db signature_hash \<noteq> None then db
      else db\<lparr>signature_cache := (signature_cache db)(signature_hash \<mapsto> row)\<rparr>)"

section \<open>Verification against the registry (packages/registry/src/verify.ts)\<close>

record Agent =
  agent_id :: string
  agent_did :: string
  agent_publicKey :: string
  agent_name :: string
  agent_status :: agent_status
  agent_credits :: int

definition rowToAgent :: "string \<Rightarrow> AgentRow \<Rightarrow> Agent" where
  "rowToAgent did row =
     \<lparr>agent_id = row_id row, agent_did = did, agent_publicKey = row_public_key row,
      agent_name = row_name row, agent_status = row_status row,
      agent_credits = row_credits row\<rparr>"

record VerifyResult =
  vr_valid :: bool
  vr_agent :: "Agent option"
  vr_error :: "string option"

text \<open>The text of a status in \<open>`Agent is ${agent.status}`\<close>.\<close>

fun status_text :: "agent_status \<Rightarrow> string" where
  "status_text active = ''active''"
| "status_text suspended = ''suspended''"
| "status_text revoked = ''revoked''"

text \<open>
  \<open>publicKey.match(/.{1,2}/g)\<close>: the successive groups of two characters, or of one where
  a line terminator or the end follows; a line terminator belongs to no group. The
  result \<open>null\<close> (no group) is the empty list.
\<close>

definition isLineTerminator :: "char \<Rightarrow> bool" where
  "isLineTerminator c \<longleftrightarrow> c = CHR 0x0A \<or> c = CHR 0x0D"

fun hexPairs :: "string \<Rightarrow> string list" where
  "hexPairs [] = []"
| "hexPairs [c] = (if isLineTerminator c then [] else [[c]])"
| "hexPairs (c # d # cs) =
     (if isLineTerminator c then hexPairs (d # cs)
      else if isLineTerminator d then [c] # hexPairs cs
      else [c, d] # hexPairs cs)"

text \<open>An element of \<open>new Uint8Array(numbers)\<close>: \<open>NaN\<close> is 0, an integer is taken modulo 256.\<close>

definition toUint8 :: "int option \<Rightarrow> byte" where
  "toUint8 v = (case v of None \<Rightarrow> 0 | Some n \<Rightarrow> of_int n)"

text \<open>
  \<open>new Date(n).toISOString()\<close> as the instant it denotes; a \<open>RangeError\<close> (\<open>None\<close>) for
  \<open>NaN\<close> and outside the range of dates.
\<close>

definition toISOString :: "int option \<Rightarrow> int option" where
  "toISOString n =
     (case n of
        None \<Rightarrow> None
      | Some t \<Rightarrow> if \<bar>t\<bar> \<le> 8640000000000000 then Some t else None)"

definition verifyAgentSignature ::
  "platform \<Rightarrow> int \<Rightarrow> database \<Rightarrow> string \<Rightarrow> string \<Rightarrow> string \<Rightarrow> string
     \<Rightarrow> VerifyResult \<times> database"
where
  "verifyAgentSignature P now db did signature message timestamp =
     (case select_single db (agents db) did of
        QueryError code error_message \<Rightarrow>
          if code = ''PGRST116''
          then (\<lparr>vr_valid = False, vr_agent = None,
                 vr_error = Some (''Agent not found: '' @ did)\<rparr>, db)
          else (\<lparr>vr_valid = False, vr_agent = None,
                 vr_error = Some (''Database error: '' @ error_message)\<rparr>, db)
      | Data row \<Rightarrow>
          let agent = rowToAgent did row
          in if agent_status agent \<noteq> active
             then (\<lparr>vr_valid = False, vr_agent = Some agent,
                    vr_error = Some (''Agent is '' @ status_text (agent_status agent))\<rparr>, db)
             else
               let signatureHash = bytesToHex (sha256 P (utf8_encode signature))
               in case select_single db (signature_cache db) signatureHash of
                    Data cached \<Rightarrow>
                      (\<lparr>vr_valid = False, vr_agent = Some agent,
                        vr_error = Some ''Signature already used (replay attack detected)''\<rparr>,
                       db)
                  | QueryError code error_message \<Rightarrow>
                      (case hexPairs (agent_publicKey agent) of
                         [] \<Rightarrow>
                           (\<lparr>vr_valid = False, vr_agent = Some agent,
                             vr_error = Some ''Invalid public key format''\<rparr>, db)
                       | pair # pairs \<Rightarrow>
                           let publicKeyBytes =
                                 map (\<lambda>byte. toUint8 (parseInt byte (Some 16))) (pair # pairs);
                               result = verifyRequest P now
                                          [(''x-agent-signature'', signature),
                                           (''x-agent-timestamp'', timestamp)]
                                          publicKeyBytes (Some message) None
                           in if \<not> ver_valid result
                              then (\<lparr>vr_valid = False, vr_agent = Some agent,
                                     vr_error =
                                       Some (case ver_error result of
                                               None \<Rightarrow> ''Signature verification failed''
                                             | Some e \<Rightarrow>
                                                 if e = [] then ''Signature verification failed''
                                                 else e)\<rparr>, db)
                              else (case toISOString (parseInt timestamp None) of
                                      None \<Rightarrow>
                                        (\<lparr>vr_valid = False, vr_agent = Some agent,
                                          vr_error = Some ''Invalid time value''\<rparr>, db)
                                    | Some instant \<Rightarrow>
                                        (\<lparr>vr_valid = True, vr_agent = Some agent,
                                          vr_error = None\<rparr>,
                                         insert_signature_cache db signatureHash
                                           \<lparr>cache_agent_did = did, cache_timestamp = instant,
                                            cache_created_at = now\<rparr>))))"

section \<open>The credit ledger (supabase/migrations/00002, packages/registry/src/credits.ts)\<close>

text \<open>An SQL \<open>INTEGER\<close> holds 32 bits; arithmetic that leaves the range raises an error.\<close>

definition int4 :: "int \<Rightarrow> bool" where
  "int4 n \<longleftrightarrow> - 2147483648 \<le> n \<and> n \<le> 2147483647"

text \<open>
  \<open>record_credit_event_atomic\<close>. The \<open>UPDATE\<close> finds the row by \<open>did\<close>, sets
  \<open>credits = GREATEST(0, credits + p_amount)\<close> and returns the id and the new balance; no
  row raises \<open>Agent not found\<close>. The \<open>INSERT\<close> appends the ledger row, whose \<open>id\<close> and
  \<open>created_at\<close> are the defaults the database generates (parameters here). An error leaves
  the database as it was.
\<close>

definition record_credit_event_atomic ::
  "database \<Rightarrow> string \<Rightarrow> int \<Rightarrow> string \<Rightarrow> credit_event_type \<Rightarrow> int \<Rightarrow> string \<Rightarrow> string option
     \<Rightarrow> string + (CreditLedgerRow \<times> database)"
where
  "record_credit_event_atomic db new_id now p_did p_type p_amount p_reason p_pr_url =
     (if \<not> int4 p_amount then Inl ''integer out of range''
      else case agents db p_did of
             None \<Rightarrow> Inl (''Agent not found: '' @ p_did)
           | Some row \<Rightarrow>
               if \<not> int4 (row_credits row + p_amount) then Inl ''integer out of range''
               else
                 let v_agent_id = row_id row;
                     v_new_balance = max 0 (row_credits row + p_amount);
                     v_result = \<lparr>ledger_id = new_id, ledger_agent_id = v_agent_id,
                                 ledger_event_type = p_type, ledger_amount = p_amount,
                                 ledger_balance_after = v_new_balance,
                                 ledger_reason = p_reason, ledger_pr_url = p_pr_url,
                                 ledger_created_at = now\<rparr>
                 in Inr (v_result,
                         db\<lparr>agents := (agents db)(p_did \<mapsto> row\<lparr>row_credits := v_new_balance\<rparr>),
                            credit_ledger := credit_ledger db @ [v_result]\<rparr>))"

record CreditEvent =
  event_type :: credit_event_type
  event_amount :: int
  event_reason :: string
  event_prUrl :: "string option"

record CreditLedgerEntry =
  entry_id :: string
  entry_agentId :: string
  entry_type :: "credit_event_type option"
  entry_amount :: int
  entry_balanceAfter :: int
  entry_reason :: string
  entry_prUrl :: "string option"
  entry_createdAt :: int

text \<open>
  \<open>rowToLedgerEntry\<close> reads \<open>row.type\<close>; the row the database returns has the column
  \<open>event_type\<close> and no property \<open>type\<close>, so the entry's \<open>type\<close> is \<open>undefined\<close>.
\<close>

definition rowToLedgerEntry :: "CreditLedgerRow \<Rightarrow> CreditLedgerEntry" where
  "rowToLedgerEntry row =
     \<lparr>entry_id = ledger_id row, entry_agentId = ledger_agent_id row, entry_type = None,
      entry_amount = ledger_amount row, entry_balanceAfter = ledger_balance_after row,
      entry_reason = ledger_reason row, entry_prUrl = ledger_pr_url row,
      entry_createdAt = ledger_created_at row\<rparr>"

text \<open>
  \<open>recordCreditEvent\<close>: one remote call of the database function; \<open>event.prUrl || null\<close>
  turns an empty URL into \<open>null\<close>; an error is thrown with the prefix below.
\<close>

definition recordCreditEvent ::
  "database \<Rightarrow> string \<Rightarrow> int \<Rightarrow> string \<Rightarrow> CreditEvent
     \<Rightarrow> string + (CreditLedgerEntry \<times> database)"
where
  "recordCreditEvent db new_id now did event =
     (case fault db of
        Some (code, error_message) \<Rightarrow> Inl (''Failed to record credit event: '' @ error_message)
      | None \<Rightarrow>
         (case record_credit_event_atomic db new_id now did (event_type event)
                 (event_amount event) (event_reason event)
                 (case event_prUrl event of
                    None \<Rightarrow> None
                  | Some u \<Rightarrow> if u = [] then None else Some u) of
            Inl error_message \<Rightarrow> Inl (''Failed to record credit event: '' @ error_message)
          | Inr (row, db') \<Rightarrow> Inr (rowToLedgerEntry row, db')))"

section \<open>Auxiliary notions used in the proofs\<close>

text \<open>A byte that holds a six-bit value.\<close>

definition sextet :: "byte \<Rightarrow> bool" where
  "sextet w \<longleftrightarrow> take_bit 6 w = w"

text \<open>The six-bit groups of a byte string, before they are turned into characters.\<close>

fun sextets_of :: "byte list \<Rightarrow> byte list" where
  "sextets_of [] = []"
| "sextets_of [a] = [drop_bit 2 a, push_bit 4 (a AND 3)]"
| "sextets_of [a, b] =
     [drop_bit 2 a, push_bit 4 (a AND 3) OR drop_bit 4 b, push_bit 2 (b AND 15)]"
| "sextets_of (a # b # c # rest) =
     [drop_bit 2 a, push_bit 4 (a AND 3) OR drop_bit 4 b,
      push_bit 2 (b AND 15) OR drop_bit 6 c, c AND 63] @ sextets_of rest"

text \<open>The method name of a DID \<open>did:<method>:<id>\<close>: the text between the first two colons.\<close>

definition did_method :: "string \<Rightarrow> string" where
  "did_method did = takeWhile (\<lambda>c. c \<noteq> CHR '':'') (drop 4 did)"

text \<open>Fixtures for the closed examples: a network that answers every URL alike.\<close>

definition fetch_always :: "fetch_result \<Rightarrow> string \<Rightarrow> fetch_result" where
  "fetch_always r url = r"

text \<open>
  Fixtures for the closed examples: a toy signature scheme in which the signature of a
  message is its first 64 bytes, padded with zero bytes, whatever the key, and the digest
  of a byte string is its first 32 bytes, padded likewise; and a registry with one agent.
\<close>

definition toy_platform :: platform where
  "toy_platform =
     \<lparr>sha256 = (\<lambda>bytes. take 32 (bytes @ replicate 32 0)),
      signMessage = (\<lambda>message key. take 64 (message @ replicate 64 0)),
      ed25519_verify =
        (\<lambda>signature message key. Some (signature = take 64 (message @ replicate 64 0)))\<rparr>"

definition toy_registry :: "agent_status \<Rightarrow> int \<Rightarrow> database" where
  "toy_registry st balance =
     \<lparr>agents = [''did:web:example.com'' \<mapsto>
                  \<lparr>row_id = ''a1'', row_public_key = ''00ff'', row_name = ''agent'',
                   row_status = st, row_credits = balance\<rparr>],
      signature_cache = Map.empty,
      credit_ledger = [],
      fault = None\<rparr>"

definition toy_signature :: "int \<Rightarrow> string \<Rightarrow> string" where
  "toy_signature T message =
     base64urlEncode (signMessage toy_platform
       (utf8_encode (createCanonicalString toy_platform T
          \<lparr>req_method = ''POST'', req_url = ''/'', req_body = Some message,
           req_timestamp = Some T\<rparr>)) [])"

text \<open>
  A serial schedule of calls of \<open>recordCreditEvent\<close> for one agent: each call runs on the
  database the call before it left, and the first error ends the schedule.
\<close>

fun recordCreditEvents ::
  "database \<Rightarrow> string \<Rightarrow> (string \<times> int \<times> CreditEvent) list \<Rightarrow> string + database"
where
  "recordCreditEvents db did [] = Inr db"
| "recordCreditEvents db did ((new_id, now, event) # calls) =
     (case recordCreditEvent db new_id now did event of
        Inl error_message \<Rightarrow> Inl error_message
      | Inr (entry, db') \<Rightarrow> recordCreditEvents db' did calls)"
section \<open>Lemmas: base58\<close>

lemma indexOf_nth:
  "distinct xs \<Longrightarrow> i < length xs \<Longrightarrow> indexOf xs (xs ! i) = Some i"
proof (induction xs arbitrary: i)
  case Nil
  then show ?case by simp
next
  case (Cons x xs)
  show ?case
  proof (cases i)
    case 0
    then show ?thesis by simp
  next
    case (Suc j)
    with Cons.prems have "xs ! j \<in> set xs" "x \<notin> set xs" by auto
    then have "x \<noteq> xs ! j" by auto
    with Cons Suc show ?thesis by simp
  qed
qed

lemma indexOf_Some_iff: "indexOf xs c = Some i \<Longrightarrow> i < length xs \<and> xs ! i = c"
  by (induction xs arbitrary: i) (auto split: if_splits)

lemma indexOf_None_iff: "indexOf xs c = None \<longleftrightarrow> c \<notin> set xs"
  by (induction xs) auto

lemma BASE58_distinct: "distinct BASE58_ALPHABET"
  unfolding BASE58_ALPHABET_def by simp

lemma BASE58_length: "length BASE58_ALPHABET = 58"
  unfolding BASE58_ALPHABET_def by simp

lemma base58_index: "d < 58 \<Longrightarrow> indexOf BASE58_ALPHABET (BASE58_ALPHABET ! d) = Some d"
  by (simp add: indexOf_nth BASE58_distinct BASE58_length)

lemma num_to_base58_acc: "num_to_base58 n acc = num_to_base58 n [] @ acc"
proof (induction n arbitrary: acc rule: less_induct)
  case (less n)
  show ?case
  proof (cases "n > 0")
    case True
    let ?c = "BASE58_ALPHABET ! (n mod 58)"
    have lt: "n div 58 < n" using True by simp
    have "num_to_base58 n acc = num_to_base58 (n div 58) (?c # acc)"
      using True by (subst num_to_base58.simps) simp
    also have "\<dots> = num_to_base58 (n div 58) [] @ (?c # acc)"
      using less[OF lt] .
    also have "\<dots> = (num_to_base58 (n div 58) [] @ [?c]) @ acc"
      by simp
    also have "num_to_base58 (n div 58) [] @ [?c] = num_to_base58 (n div 58) [?c]"
      using less[OF lt, of "[?c]"] by simp
    also have "num_to_base58 (n div 58) [?c] = num_to_base58 n []"
      using True by (subst (2) num_to_base58.simps) simp
    finally show ?thesis .
  next
    case False
    then show ?thesis by (simp add: num_to_base58.simps)
  qed
qed

lemma num_to_base58_unfold:
  "num_to_base58 n [] = (if n > 0 then num_to_base58 (n div 58) [] @ [BASE58_ALPHABET ! (n mod 58)] else [])"
  by (subst num_to_base58.simps) (simp add: num_to_base58_acc[of _ "[_]"])

lemma num_to_bytes_acc: "num_to_bytes n acc = num_to_bytes n [] @ acc"
proof (induction n arbitrary: acc rule: less_induct)
  case (less n)
  show ?case
  proof (cases "n > 0")
    case True
    let ?c = "of_nat (n mod 256) :: byte"
    have lt: "n div 256 < n" using True by simp
    have "num_to_bytes n acc = num_to_bytes (n div 256) (?c # acc)"
      using True by (subst num_to_bytes.simps) simp
    also have "\<dots> = num_to_bytes (n div 256) [] @ (?c # acc)"
      using less[OF lt] .
    also have "\<dots> = (num_to_bytes (n div 256) [] @ [?c]) @ acc"
      by simp
    also have "num_to_bytes (n div 256) [] @ [?c] = num_to_bytes (n div 256) [?c]"
      using less[OF lt, of "[?c]"] by simp
    also have "num_to_bytes (n div 256) [?c] = num_to_bytes n []"
      using True by (subst (2) num_to_bytes.simps) simp
    finally show ?thesis .
  next
    case False
    then show ?thesis by (simp add: num_to_bytes.simps)
  qed
qed

lemma num_to_bytes_unfold:
  "num_to_bytes n [] = (if n > 0 then num_to_bytes (n div 256) [] @ [of_nat (n mod 256)] else [])"
  by (subst num_to_bytes.simps) (simp add: num_to_bytes_acc[of _ "[_]"])

lemma base58_to_num_snoc:
  "base58_to_num (cs @ [c]) m =
     (case base58_to_num cs m of
        Inl e \<Rightarrow> Inl e
      | Inr v \<Rightarrow> (case indexOf BASE58_ALPHABET c of
                   None \<Rightarrow> Inl (InvalidBase58Character c)
                 | Some d \<Rightarrow> Inr (v * 58 + d)))"
  by (induction cs arbitrary: m) (auto split: option.splits sum.splits)

lemma base58_to_num_digits: "base58_to_num (num_to_base58 n []) 0 = Inr n"
proof (induction n rule: less_induct)
  case (less n)
  show ?case
  proof (cases "n > 0")
    case True
    then have lt: "n div 58 < n" by simp
    show ?thesis
      by (subst num_to_base58_unfold) (simp add: True base58_to_num_snoc less[OF lt] base58_index)
  next
    case False
    then show ?thesis by (simp add: num_to_base58_unfold)
  qed
qed

lemma bytes_to_num_snoc: "bytes_to_num (bs @ [b]) = bytes_to_num bs * 256 + unat b"
  by (simp add: bytes_to_num_def)

lemma bytes_to_num_pos: "bs \<noteq> [] \<Longrightarrow> hd bs \<noteq> 0 \<Longrightarrow> 0 < bytes_to_num bs"
proof (induction bs rule: rev_induct)
  case Nil
  then show ?case by simp
next
  case (snoc b bs)
  show ?case
  proof (cases "bs = []")
    case True
    with snoc.prems have "b \<noteq> 0" by simp
    then have "unat b \<noteq> 0" by (simp add: unat_0_iff)
    with True show ?thesis by (simp add: bytes_to_num_def)
  next
    case False
    with snoc have "0 < bytes_to_num bs" by simp
    then show ?thesis by (simp add: bytes_to_num_snoc)
  qed
qed

lemma num_to_bytes_inverse:
  "bs = [] \<or> hd bs \<noteq> 0 \<Longrightarrow> num_to_bytes (bytes_to_num bs) [] = bs"
proof (induction bs rule: rev_induct)
  case Nil
  then show ?case by (simp add: bytes_to_num_def num_to_bytes_unfold)
next
  case (snoc b bs)
  have ih: "num_to_bytes (bytes_to_num bs) [] = bs"
    using snoc by (cases bs) auto
  have pos: "0 < bytes_to_num (bs @ [b])"
    using snoc.prems by (intro bytes_to_num_pos) auto
  have ub: "unat b < 256"
    using unsigned_less[of b, where 'a=nat] by simp
  have d: "(bytes_to_num bs * 256 + unat b) div 256 = bytes_to_num bs"
    using ub by simp
  have m: "(of_nat ((bytes_to_num bs * 256 + unat b) mod 256) :: byte) = b"
    using ub by simp
  let ?n = "bytes_to_num bs * 256 + unat b"
  have "num_to_bytes ?n [] = num_to_bytes (?n div 256) [] @ [of_nat (?n mod 256)]"
    using pos by (subst num_to_bytes_unfold) (simp add: bytes_to_num_snoc)
  also have "\<dots> = bs @ [b]"
    by (simp only: d m ih)
  finally show ?case
    by (simp only: bytes_to_num_snoc)
qed


lemma add_leading_zeros_eq:
  "add_leading_zeros bs acc =
     replicate (length (takeWhile (\<lambda>b. b = 0) bs)) (BASE58_ALPHABET ! 0) @ acc"
  by (induction bs arbitrary: acc) (auto simp: replicate_append_same)

lemma bytes_to_num_Cons: "bytes_to_num (b # bs) = unat b * 256 ^ length bs + bytes_to_num bs"
proof (induction bs arbitrary: b rule: rev_induct)
  case Nil
  then show ?case by (simp add: bytes_to_num_def)
next
  case (snoc x xs)
  have "bytes_to_num (b # xs @ [x]) = bytes_to_num ((b # xs) @ [x])" by simp
  also have "\<dots> = bytes_to_num (b # xs) * 256 + unat x" by (rule bytes_to_num_snoc)
  finally show ?case by (simp add: snoc bytes_to_num_snoc algebra_simps)
qed

lemma bytes_to_num_dropWhile:
  "bytes_to_num (dropWhile (\<lambda>b. b = 0) bs) = bytes_to_num bs"
  by (induction bs) (auto simp: bytes_to_num_Cons)

lemma takeWhile_zero_replicate:
  "takeWhile (\<lambda>b. b = (0::byte)) bs = replicate (length (takeWhile (\<lambda>b. b = 0) bs)) 0"
  by (induction bs) auto

lemma dropWhile_zero_head:
  "dropWhile (\<lambda>b. b = (0::byte)) bs = [] \<or> hd (dropWhile (\<lambda>b. b = 0) bs) \<noteq> 0"
  using hd_dropWhile[of "\<lambda>b. b = (0::byte)" bs] by auto

lemma base58_nth_neq_first: "0 < d \<Longrightarrow> d < 58 \<Longrightarrow> BASE58_ALPHABET ! d \<noteq> BASE58_ALPHABET ! 0"
  using BASE58_distinct BASE58_length by (simp add: nth_eq_iff_index_eq)

lemma num_to_base58_head:
  "0 < n \<Longrightarrow> \<exists>d cs. num_to_base58 n [] = BASE58_ALPHABET ! d # cs \<and> 0 < d \<and> d < 58"
proof (induction n rule: less_induct)
  case (less n)
  have unf: "num_to_base58 n [] = num_to_base58 (n div 58) [] @ [BASE58_ALPHABET ! (n mod 58)]"
    using less.prems by (subst num_to_base58_unfold) simp
  show ?case
  proof (cases "n div 58 = 0")
    case True
    then have "n < 58" using less.prems by (simp add: div_eq_0_iff)
    then have "num_to_base58 n [] = [BASE58_ALPHABET ! n]"
      using unf True by (simp add: num_to_base58_unfold)
    with less.prems \<open>n < 58\<close> show ?thesis by blast
  next
    case False
    then have "0 < n div 58" "n div 58 < n" using less.prems by auto
    from less.IH[OF this(2) this(1)] obtain d cs where
      "num_to_base58 (n div 58) [] = BASE58_ALPHABET ! d # cs" "0 < d" "d < 58" by blast
    with unf show ?thesis by auto
  qed
qed

lemma count_leading_zeros_digits: "count_leading_zeros (num_to_base58 n []) = 0"
proof (cases "0 < n")
  case True
  from num_to_base58_head[OF True] obtain d cs where
    "num_to_base58 n [] = BASE58_ALPHABET ! d # cs" "0 < d" "d < 58" by blast
  then show ?thesis using base58_nth_neq_first by simp
next
  case False
  then show ?thesis by (simp add: num_to_base58_unfold)
qed

lemma count_leading_zeros_replicate:
  "count_leading_zeros (replicate z (BASE58_ALPHABET ! 0) @ cs) = z + count_leading_zeros cs"
  by (induction z) auto

lemma base58_to_num_replicate:
  "base58_to_num (replicate z (BASE58_ALPHABET ! 0) @ cs) 0 = base58_to_num cs 0"
  using base58_index[of 0] by (induction z) auto

lemma num_to_base58_empty: "num_to_base58 n [] = [] \<longleftrightarrow> n = 0"
  by (subst num_to_base58_unfold) simp

lemma decodeBase58_encodeBase58: "decodeBase58 (encodeBase58 bs) = Inr bs"
proof (cases "bs = []")
  case True
  then show ?thesis by (simp add: encodeBase58_def decodeBase58_def)
next
  case False
  let ?z = "length (takeWhile (\<lambda>b. b = 0) bs)"
  let ?r = "dropWhile (\<lambda>b. b = 0) bs"
  let ?n = "bytes_to_num bs"
  let ?enc = "replicate ?z (BASE58_ALPHABET ! 0) @ num_to_base58 ?n []"
  have enc: "encodeBase58 bs = ?enc"
    using False by (simp add: encodeBase58_def add_leading_zeros_eq)
  have split: "bs = replicate ?z 0 @ ?r"
    using takeWhile_dropWhile_id[of "\<lambda>b. b = 0" bs] takeWhile_zero_replicate[of bs] by simp
  have r: "num_to_bytes ?n [] = ?r"
    using num_to_bytes_inverse[OF dropWhile_zero_head[of bs]] by (simp add: bytes_to_num_dropWhile)
  have num: "base58_to_num ?enc 0 = Inr ?n"
    by (simp only: base58_to_num_replicate base58_to_num_digits)
  have cnt: "count_leading_zeros ?enc = ?z"
    by (simp add: count_leading_zeros_replicate count_leading_zeros_digits)
  have nonempty: "?enc \<noteq> []"
  proof
    assume "?enc = []"
    then have "?z = 0" "?n = 0" by (auto simp: num_to_base58_empty)
    then have "?r = []" using r by (simp add: num_to_bytes_unfold)
    with split \<open>?z = 0\<close> have "bs = []" by simp
    with False show False by simp
  qed
  have "decodeBase58 ?enc =
          (case base58_to_num ?enc 0 of
             Inl e \<Rightarrow> Inl e
           | Inr num \<Rightarrow> Inr (replicate (count_leading_zeros ?enc) 0 @ num_to_bytes num []))"
    unfolding decodeBase58_def using nonempty by (simp only: length_0_conv if_False)
  also have "\<dots> = Inr (replicate ?z 0 @ ?r)"
    by (simp only: num cnt r sum.case)
  also have "\<dots> = Inr bs"
    using split by simp
  finally show ?thesis
    by (simp only: enc)
qed

lemma multibase_roundtrip:
  "32 \<le> length k \<Longrightarrow> multibaseToPublicKey (publicKeyToMultibase k) = Inr k"
  by (simp add: multibaseToPublicKey_def publicKeyToMultibase_def decodeBase58_encodeBase58
      startsWith_def)


lemma base58_to_num_find:
  "find (\<lambda>c. c \<notin> set BASE58_ALPHABET) cs = Some c \<Longrightarrow>
   base58_to_num cs m = Inl (InvalidBase58Character c)"
proof (induction cs arbitrary: m)
  case Nil
  then show ?case by simp
next
  case (Cons x xs)
  show ?case
  proof (cases "x \<in> set BASE58_ALPHABET")
    case True
    then obtain d where "indexOf BASE58_ALPHABET x = Some d"
      using indexOf_None_iff[of BASE58_ALPHABET x] by (cases "indexOf BASE58_ALPHABET x") auto
    with Cons True show ?thesis by simp
  next
    case False
    then have "indexOf BASE58_ALPHABET x = None" by (simp add: indexOf_None_iff)
    with Cons.prems False show ?thesis by simp
  qed
qed

lemma base58_to_num_valid:
  "find (\<lambda>c. c \<notin> set BASE58_ALPHABET) cs = None \<Longrightarrow> \<exists>n. base58_to_num cs m = Inr n"
proof (induction cs arbitrary: m)
  case Nil
  then show ?case by simp
next
  case (Cons x xs)
  then have "x \<in> set BASE58_ALPHABET" by (auto split: if_splits)
  then obtain d where "indexOf BASE58_ALPHABET x = Some d"
    using indexOf_None_iff[of BASE58_ALPHABET x] by (cases "indexOf BASE58_ALPHABET x") auto
  with Cons show ?case by (auto split: if_splits)
qed

lemma base58_to_num_pos:
  "cs \<noteq> [] \<Longrightarrow> hd cs \<noteq> BASE58_ALPHABET ! 0 \<Longrightarrow> base58_to_num cs 0 = Inr n \<Longrightarrow> 0 < n"
proof (induction cs arbitrary: n rule: rev_induct)
  case Nil
  then show ?case by simp
next
  case (snoc c cs)
  from snoc.prems(3) obtain v d where
    v: "base58_to_num cs 0 = Inr v" and d: "indexOf BASE58_ALPHABET c = Some d"
    and n: "n = v * 58 + d"
    by (auto simp: base58_to_num_snoc split: sum.splits option.splits)
  show ?case
  proof (cases "cs = []")
    case True
    with snoc.prems have "c \<noteq> BASE58_ALPHABET ! 0" by simp
    with indexOf_Some_iff[OF d] have "d \<noteq> 0" by (cases d) auto
    with n show ?thesis by simp
  next
    case False
    with snoc.prems have "hd cs \<noteq> BASE58_ALPHABET ! 0" by simp
    from snoc.IH[OF False this v] n show ?thesis by simp
  qed
qed

lemma num_to_base58_inverse:
  "cs = [] \<or> hd cs \<noteq> BASE58_ALPHABET ! 0 \<Longrightarrow> base58_to_num cs 0 = Inr n \<Longrightarrow>
   num_to_base58 n [] = cs"
proof (induction cs arbitrary: n rule: rev_induct)
  case Nil
  then show ?case by (simp add: num_to_base58_unfold)
next
  case (snoc c cs)
  from snoc.prems(2) obtain v d where
    v: "base58_to_num cs 0 = Inr v" and d: "indexOf BASE58_ALPHABET c = Some d"
    and n: "n = v * 58 + d"
    by (auto simp: base58_to_num_snoc split: sum.splits option.splits)
  from indexOf_Some_iff[OF d] have dlt: "d < 58" and c: "BASE58_ALPHABET ! d = c"
    by (simp_all add: BASE58_length)
  have hd: "cs = [] \<or> hd cs \<noteq> BASE58_ALPHABET ! 0"
    using snoc.prems(1) by (cases cs) auto
  have ih: "num_to_base58 v [] = cs" by (rule snoc.IH[OF hd v])
  have pos: "0 < n"
    using snoc.prems by (intro base58_to_num_pos[of "cs @ [c]"]) auto
  have "num_to_base58 n [] = num_to_base58 (n div 58) [] @ [BASE58_ALPHABET ! (n mod 58)]"
    using pos by (subst num_to_base58_unfold) simp
  also have "n div 58 = v" using n dlt by simp
  also have "n mod 58 = d" using n dlt by simp
  finally show ?case by (simp only: ih c)
qed

lemma num_to_bytes_head:
  "0 < n \<Longrightarrow> \<exists>b bs. num_to_bytes n [] = b # bs \<and> b \<noteq> 0"
proof (induction n rule: less_induct)
  case (less n)
  have unf: "num_to_bytes n [] = num_to_bytes (n div 256) [] @ [of_nat (n mod 256)]"
    using less.prems by (subst num_to_bytes_unfold) simp
  show ?case
  proof (cases "n div 256 = 0")
    case True
    then have lt: "n < 256" using less.prems by (simp add: div_eq_0_iff)
    then have "num_to_bytes n [] = [of_nat n]"
      using unf True by (simp add: num_to_bytes_unfold)
    moreover have "(of_nat n :: byte) \<noteq> 0"
      using lt less.prems by (simp add: of_nat_0 unat_of_nat word_unat_eq_iff)
    ultimately show ?thesis by blast
  next
    case False
    then have "0 < n div 256" "n div 256 < n" using less.prems by auto
    from less.IH[OF this(2) this(1)] obtain b bs where
      "num_to_bytes (n div 256) [] = b # bs" "b \<noteq> 0" by blast
    with unf show ?thesis by auto
  qed
qed

lemma bytes_to_num_inverse: "bytes_to_num (num_to_bytes n []) = n"
proof (induction n rule: less_induct)
  case (less n)
  show ?case
  proof (cases "n > 0")
    case True
    then have lt: "n div 256 < n" by simp
    have "unat (of_nat (n mod 256) :: byte) = n mod 256"
      by (simp add: unat_of_nat)
    then show ?thesis
      by (subst num_to_bytes_unfold) (simp add: True bytes_to_num_snoc less[OF lt])
  next
    case False
    then show ?thesis by (simp add: num_to_bytes_unfold bytes_to_num_def)
  qed
qed

lemma count_leading_zeros_takeWhile:
  "count_leading_zeros cs = length (takeWhile (\<lambda>c. c = BASE58_ALPHABET ! 0) cs)"
  by (induction cs) auto

lemma takeWhile_first_replicate:
  "takeWhile (\<lambda>c. c = x) cs = replicate (length (takeWhile (\<lambda>c. c = x) cs)) x"
  by (induction cs) auto

lemma bytes_to_num_replicate: "bytes_to_num (replicate z 0 @ bs) = bytes_to_num bs"
  by (induction z) (simp_all add: bytes_to_num_Cons)

lemma add_leading_zeros_replicate:
  "bs = [] \<or> hd bs \<noteq> 0 \<Longrightarrow>
   add_leading_zeros (replicate z 0 @ bs) acc = replicate z (BASE58_ALPHABET ! 0) @ acc"
proof (induction z arbitrary: acc)
  case 0
  then show ?case by (cases bs) auto
next
  case (Suc z)
  then show ?case by (simp add: replicate_app_Cons_same)
qed

lemma encodeBase58_decodeBase58:
  assumes valid: "find (\<lambda>c. c \<notin> set BASE58_ALPHABET) cs = None"
  shows "\<exists>bs. decodeBase58 cs = Inr bs \<and> encodeBase58 bs = cs"
proof (cases "cs = []")
  case True
  then show ?thesis by (simp add: decodeBase58_def encodeBase58_def)
next
  case False
  let ?one = "BASE58_ALPHABET ! 0"
  let ?z = "count_leading_zeros cs"
  let ?r = "dropWhile (\<lambda>c. c = ?one) cs"
  from base58_to_num_valid[OF valid] obtain n where n: "base58_to_num cs 0 = Inr n" by blast
  have split: "cs = replicate ?z ?one @ ?r"
    using takeWhile_dropWhile_id[of "\<lambda>c. c = ?one" cs] takeWhile_first_replicate[of ?one cs]
    by (simp add: count_leading_zeros_takeWhile)
  have nr: "base58_to_num ?r 0 = Inr n"
    using n base58_to_num_replicate[of ?z ?r] split by simp
  have hd: "?r = [] \<or> hd ?r \<noteq> ?one"
    using hd_dropWhile[of "\<lambda>c. c = ?one" cs] by auto
  have digits: "num_to_base58 n [] = ?r"
    by (rule num_to_base58_inverse[OF hd nr])
  let ?bs = "replicate ?z 0 @ num_to_bytes n []"
  have dec: "decodeBase58 cs = Inr ?bs"
    using False by (simp add: decodeBase58_def n)
  have nonempty: "?bs \<noteq> []"
  proof
    assume "?bs = []"
    then have "?z = 0" "num_to_bytes n [] = []" by auto
    then have "n = 0" using num_to_bytes_head[of n] by (cases "0 < n") auto
    then have "?r = []" using digits by (simp add: num_to_base58_unfold)
    with split \<open>?z = 0\<close> have "cs = []" by simp
    with False show False by simp
  qed
  have hdb: "num_to_bytes n [] = [] \<or> hd (num_to_bytes n []) \<noteq> 0"
  proof (cases "0 < n")
    case True
    from num_to_bytes_head[OF this] show ?thesis by auto
  next
    case False
    then have "num_to_bytes n [] = []" by (subst num_to_bytes_unfold) simp
    then show ?thesis by simp
  qed
  have "encodeBase58 ?bs = add_leading_zeros ?bs (num_to_base58 (bytes_to_num ?bs) [])"
    using nonempty unfolding encodeBase58_def by (simp only: length_0_conv if_False)
  also have "bytes_to_num ?bs = n"
    by (simp only: bytes_to_num_replicate bytes_to_num_inverse)
  also have "add_leading_zeros ?bs (num_to_base58 n []) = replicate ?z ?one @ num_to_base58 n []"
    by (rule add_leading_zeros_replicate[OF hdb])
  also have "\<dots> = cs"
    using split digits by simp
  finally show ?thesis using dec by blast
qed

section \<open>Lemmas: base64\<close>

lemma mask3: "(3::byte) = mask 2" by (simp add: mask_eq_exp_minus_1)
lemma mask15: "(15::byte) = mask 4" by (simp add: mask_eq_exp_minus_1)
lemma mask63: "(63::byte) = mask 6" by (simp add: mask_eq_exp_minus_1)

lemma shift2: "Suc (Suc (n - 2)) = (if 2 \<le> n then n else 2)" by arith
lemma shift4: "4 + (n - 4) = (if 4 \<le> n then n else (4::nat))" by simp
lemma shift6: "6 + (n - 6) = (if 6 \<le> n then n else (6::nat))" by simp

lemmas bit_blast = bit_simps shift2 shift4 shift6 not_less

lemma group_byte1:
  "push_bit 2 (drop_bit 2 a) OR drop_bit 4 (push_bit 4 (a AND 3) OR drop_bit 4 b) = (a::byte)"
  unfolding mask3 by (rule bit_word_eqI) (auto simp: bit_blast)

lemma group_byte2:
  "push_bit 4 (push_bit 4 (a AND 3) OR drop_bit 4 b)
     OR drop_bit 2 (push_bit 2 (b AND 15) OR drop_bit 6 c) = (b::byte)"
  unfolding mask3 mask15 by (rule bit_word_eqI) (auto simp: bit_blast)

lemma group_byte3:
  "push_bit 6 (push_bit 2 (b AND 15) OR drop_bit 6 c) OR (c AND 63) = (c::byte)"
  unfolding mask63 mask15 by (rule bit_word_eqI) (auto simp: bit_blast)

lemma group_byte1_last:
  "push_bit 2 (drop_bit 2 a) OR drop_bit 4 (push_bit 4 (a AND 3)) = (a::byte)"
  using group_byte1[of a 0] by simp

lemma group_byte2_last:
  "push_bit 4 (push_bit 4 (a AND 3) OR drop_bit 4 b) OR drop_bit 2 (push_bit 2 (b AND 15))
     = (b::byte)"
  using group_byte2[of a b 0] by simp

lemma sextet_bound: "sextet w \<Longrightarrow> unat w < 64"
proof -
  assume "sextet w"
  then have "unat w = take_bit 6 (unat w)"
    unfolding sextet_def by (metis unsigned_take_bit_eq)
  also have "\<dots> < 2 ^ 6" by (rule take_bit_nat_less_exp)
  finally show ?thesis by simp
qed

lemma sextet1: "sextet (drop_bit 2 a)"
  unfolding sextet_def by (rule bit_word_eqI) (auto simp: bit_blast dest: bit_imp_le_length)

lemma sextet2: "sextet (push_bit 4 (a AND 3) OR drop_bit 4 b)"
  unfolding sextet_def mask3
  by (rule bit_word_eqI) (auto simp: bit_blast dest: bit_imp_le_length)

lemma sextet3: "sextet (push_bit 2 (b AND 15) OR drop_bit 6 c)"
  unfolding sextet_def mask15
  by (rule bit_word_eqI) (auto simp: bit_blast dest: bit_imp_le_length)

lemma sextet4: "sextet (c AND 63)"
  unfolding sextet_def mask63
  by (rule bit_word_eqI) (auto simp: bit_blast dest: bit_imp_le_length)

lemma sextet2_last: "sextet (push_bit 4 (a AND 3))"
  using sextet2[of a 0] by simp

lemma sextet3_last: "sextet (push_bit 2 (b AND 15))"
  using sextet3[of b 0] by simp

lemmas sextets = sextet1 sextet2 sextet3 sextet4 sextet2_last sextet3_last

lemma BASE64_distinct: "distinct BASE64_ALPHABET"
  unfolding BASE64_ALPHABET_def by simp

lemma BASE64_length: "length BASE64_ALPHABET = 64"
  unfolding BASE64_ALPHABET_def by simp

lemma b64char_in: "sextet w \<Longrightarrow> b64char w \<in> set BASE64_ALPHABET"
  using sextet_bound[of w] by (simp add: b64char_def BASE64_length)

lemma b64char_not_special:
  assumes "sextet w"
  shows "b64char w \<noteq> CHR ''=''" "b64char w \<noteq> CHR ''-''" "b64char w \<noteq> CHR ''_''"
proof -
  have "CHR ''='' \<notin> set BASE64_ALPHABET" "CHR ''-'' \<notin> set BASE64_ALPHABET"
       "CHR ''_'' \<notin> set BASE64_ALPHABET"
    unfolding BASE64_ALPHABET_def by simp_all
  with b64char_in[OF assms]
  show "b64char w \<noteq> CHR ''=''" "b64char w \<noteq> CHR ''-''" "b64char w \<noteq> CHR ''_''"
    by auto
qed

lemma unbase64_b64char: "sextet w \<Longrightarrow> unbase64 (b64char w) = Some w"
  using sextet_bound[of w] b64char_not_special[of w]
  by (simp add: unbase64_def) (simp add: b64char_def indexOf_nth BASE64_distinct BASE64_length)

lemma sextets_of_sextet: "w \<in> set (sextets_of bs) \<Longrightarrow> sextet w"
proof (induction bs arbitrary: w rule: sextets_of.induct)
  case 1
  then show ?case by (simp only: sextets_of.simps list.set empty_iff)
next
  case (2 a)
  then have "w = drop_bit 2 a \<or> w = push_bit 4 (a AND 3)"
    by (simp only: sextets_of.simps list.set insert_iff empty_iff simp_thms)
  then show ?case using sextets by blast
next
  case (3 a b)
  then have "w = drop_bit 2 a \<or> w = push_bit 4 (a AND 3) OR drop_bit 4 b
               \<or> w = push_bit 2 (b AND 15)"
    by (simp only: sextets_of.simps list.set insert_iff empty_iff simp_thms)
  then show ?case using sextets by blast
next
  case (4 a b c rest)
  from "4.prems" have "w \<in> {drop_bit 2 a, push_bit 4 (a AND 3) OR drop_bit 4 b,
               push_bit 2 (b AND 15) OR drop_bit 6 c, c AND 63} \<union> set (sextets_of rest)"
    by (simp only: sextets_of.simps list.set set_append)
  then show ?case using sextets "4.IH" by blast
qed

lemma to_base64_sextets:
  "to_base64 bs = map b64char (sextets_of bs) @ replicate ((3 - length bs mod 3) mod 3) CHR ''=''"
  by (induction bs rule: to_base64.induct) (simp_all add: numeral_2_eq_2)

lemma decode_groups_sextets: "decode_groups (sextets_of bs) = bs"
  by (induction bs rule: sextets_of.induct)
     (simp_all only: sextets_of.simps decode_groups.simps append_Cons append_Nil
        group_byte1 group_byte2 group_byte3 group_byte1_last group_byte2_last)

lemma map_filter_unbase64:
  "(\<And>w. w \<in> set ws \<Longrightarrow> sextet w) \<Longrightarrow> List.map_filter unbase64 (map b64char ws) = ws"
  by (induction ws) (simp_all add: unbase64_b64char)

lemma remove_padding_replaced:
  assumes "\<And>w. w \<in> set ws \<Longrightarrow> b64char w \<noteq> CHR ''=''"
  shows "remove_all CHR ''='' (replace_all CHR ''/'' CHR ''_''
           (replace_all CHR ''+'' CHR ''-'' (map b64char ws @ replicate k CHR ''='')))
         = replace_all CHR ''/'' CHR ''_'' (replace_all CHR ''+'' CHR ''-'' (map b64char ws))"
  using assms by (induction ws) (auto simp: remove_all_def replace_all_def)

lemma base64urlEncode_sextets:
  "base64urlEncode bs =
     replace_all CHR ''/'' CHR ''_'' (replace_all CHR ''+'' CHR ''-'' (map b64char (sextets_of bs)))"
proof -
  have "\<And>w. w \<in> set (sextets_of bs) \<Longrightarrow> b64char w \<noteq> CHR ''=''"
    using sextets_of_sextet b64char_not_special(1) by blast
  from remove_padding_replaced[OF this] show ?thesis
    by (simp only: base64urlEncode_def to_base64_sextets Let_def)
qed

lemma base64urlEncode_no_padding: "CHR ''='' \<notin> set (base64urlEncode bs)"
  by (simp add: base64urlEncode_def remove_all_def)

lemma takeWhile_padding:
  "\<forall>x \<in> set xs. x \<noteq> c \<Longrightarrow> takeWhile (\<lambda>x. x \<noteq> c) (xs @ replicate k c) = xs"
proof (induction xs)
  case Nil
  show ?case by (cases k) simp_all
next
  case (Cons x xs)
  then show ?case by simp
qed

lemma from_base64_padded:
  assumes "\<And>w. w \<in> set ws \<Longrightarrow> sextet w"
  shows "from_base64 (map b64char ws @ replicate k CHR ''='') = decode_groups ws"
proof -
  have "\<forall>c \<in> set (map b64char ws). c \<noteq> CHR ''=''"
    using assms b64char_not_special(1) by auto
  then have "takeWhile (\<lambda>c. c \<noteq> CHR ''='') (map b64char ws @ replicate k CHR ''='')
               = map b64char ws"
    by (rule takeWhile_padding)
  then show ?thesis
    by (simp add: from_base64_def map_filter_unbase64[OF assms])
qed

lemma base64url_undo_replace:
  assumes "\<And>w. w \<in> set ws \<Longrightarrow> sextet w"
  shows "replace_all CHR ''_'' CHR ''/'' (replace_all CHR ''-'' CHR ''+''
           (replace_all CHR ''/'' CHR ''_'' (replace_all CHR ''+'' CHR ''-'' (map b64char ws))))
         = map b64char ws"
  using assms
proof (induction ws)
  case Nil
  then show ?case by (simp add: replace_all_def)
next
  case (Cons w ws)
  then have "sextet w" by simp
  from b64char_not_special[OF this] Cons show ?case
    by (auto simp: replace_all_def)
qed

lemma base64url_roundtrip: "base64urlDecode (base64urlEncode bs) = bs"
proof -
  let ?cs = "map b64char (sextets_of bs)"
  have sx: "\<And>w. w \<in> set (sextets_of bs) \<Longrightarrow> sextet w"
    by (rule sextets_of_sextet)
  have undo: "replace_all CHR ''_'' CHR ''/'' (replace_all CHR ''-'' CHR ''+'' (base64urlEncode bs)) = ?cs"
    unfolding base64urlEncode_sextets by (rule base64url_undo_replace[OF sx])
  have pad: "from_base64 (?cs @ replicate k CHR ''='') = bs" for k
    by (simp only: from_base64_padded[OF sx] decode_groups_sextets)
  have "from_base64 (?cs @ ''=='') = bs" "from_base64 (?cs @ ''='') = bs" "from_base64 ?cs = bs"
    using pad[of 2] pad[of 1] pad[of 0] by (simp_all add: numeral_2_eq_2)
  then show ?thesis
    unfolding base64urlDecode_def undo Let_def by simp
qed

lemma base64urlEncode_nonempty: "bs \<noteq> [] \<Longrightarrow> base64urlEncode bs \<noteq> []"
  using base64url_roundtrip[of bs] by (auto simp: base64urlDecode_def from_base64_def replace_all_def)

section \<open>Lemmas: DID strings\<close>

lemma split_nonempty: "split sep s \<noteq> []"
  by (induction s) (auto split: list.splits)

lemma split_no_sep: "sep \<notin> set p \<Longrightarrow> split sep p = [p]"
  by (induction p) auto

lemma split_append_sep:
  "sep \<notin> set p \<Longrightarrow> split sep (p @ sep # rest) = p # split sep rest"
  by (induction p) (auto split: list.splits)

lemma split_join:
  "ps \<noteq> [] \<Longrightarrow> \<forall>p \<in> set ps. sep \<notin> set p \<Longrightarrow> split sep (join [sep] ps) = ps"
proof (induction "[sep]" ps rule: join.induct)
  case 1
  then show ?case by simp
next
  case (2 p)
  then show ?case by (simp add: split_no_sep)
next
  case (3 p q ps)
  then show ?case by (simp add: split_append_sep)
qed

lemma startsWith_append: "startsWith (p @ s) p"
  by (simp add: startsWith_def)

lemma getWellKnownUrl_join:
  assumes "CHR '':'' \<notin> set domain" "\<forall>seg \<in> set segs. CHR '':'' \<notin> set seg"
  shows "getWellKnownUrl (''did:web:'' @ join '':'' (domain # segs)) =
           Inr (if segs = [] then ''https://'' @ domain @ ''/.well-known/did.json''
                else ''https://'' @ domain @ ''/'' @ join ''/'' segs @ ''/did.json'')"
proof -
  have sw: "startsWith (''did:web:'' @ join '':'' (domain # segs)) ''did:web:''"
    by (rule startsWith_append)
  have dr: "drop 8 (''did:web:'' @ join '':'' (domain # segs)) = join '':'' (domain # segs)"
    by simp
  have sp: "split CHR '':'' (join '':'' (domain # segs)) = domain # segs"
    using assms by (intro split_join) auto
  show ?thesis
    unfolding getWellKnownUrl_def Let_def
    by (simp only: sw dr sp) simp
qed

lemma startsWith_iff: "startsWith s p \<longleftrightarrow> (\<exists>r. s = p @ r)"
proof
  assume "startsWith s p"
  then have "s = p @ drop (length p) s"
    using append_take_drop_id[of "length p" s] by (simp add: startsWith_def)
  then show "\<exists>r. s = p @ r" ..
next
  assume "\<exists>r. s = p @ r"
  then show "startsWith s p" by (auto simp: startsWith_def)
qed

lemma isValidDID_shape:
  assumes "isValidDID did"
  obtains m tail where "did = ''did:'' @ m @ CHR '':'' # tail" "m \<noteq> []"
    "\<forall>c \<in> set m. is_method_char c" "tail \<noteq> []" "\<forall>c \<in> set tail. is_id_char c"
proof -
  from assms obtain rest where did: "did = ''did:'' @ rest"
    by (auto simp: isValidDID_def startsWith_iff)
  then have dr: "drop 4 did = rest" by simp
  let ?m = "takeWhile is_method_char rest"
  let ?after = "dropWhile is_method_char rest"
  from assms have m: "?m \<noteq> []" and after: "?after \<noteq> []" "hd ?after = CHR '':''"
    and tl: "tl ?after \<noteq> []" "list_all is_id_char (tl ?after)"
    unfolding isValidDID_def Let_def dr by blast+
  from after obtain tail where tail: "?after = CHR '':'' # tail"
    by (cases ?after) auto
  have rest: "rest = ?m @ CHR '':'' # tail"
    using takeWhile_dropWhile_id[of is_method_char rest] tail by simp
  have "\<forall>c \<in> set ?m. is_method_char c"
    by (auto dest: set_takeWhileD)
  moreover have "tail \<noteq> []" "\<forall>c \<in> set tail. is_id_char c"
    using tl tail by (simp_all add: list_all_iff)
  moreover have "did = ''did:'' @ ?m @ CHR '':'' # tail"
    using did rest by simp
  ultimately show ?thesis using m that by blast
qed

lemma did_method_web:
  assumes "isValidDID did"
  shows "startsWith did ''did:web:'' \<longleftrightarrow> did_method did = ''web''"
proof -
  from assms obtain m tail where did: "did = ''did:'' @ m @ CHR '':'' # tail"
    and mc: "\<forall>c \<in> set m. is_method_char c"
    by (rule isValidDID_shape)
  have nocolon: "\<forall>c \<in> set m. c \<noteq> CHR '':''"
    using mc by (auto simp: is_method_char_def is_lower_def is_decimal_def)
  then have tw: "takeWhile (\<lambda>c. c \<noteq> CHR '':'') (m @ CHR '':'' # tail) = m"
    by (induction m) auto
  have m: "did_method did = m"
    unfolding did_method_def did using tw by simp
  show ?thesis
  proof
    assume "startsWith did ''did:web:''"
    then obtain r where "did = ''did:web:'' @ r" by (auto simp: startsWith_iff)
    with did have "m @ CHR '':'' # tail = ''web:'' @ r" by simp
    then have "takeWhile (\<lambda>c. c \<noteq> CHR '':'') (m @ CHR '':'' # tail) = ''web''" by simp
    with tw m show "did_method did = ''web''" by simp
  next
    assume "did_method did = ''web''"
    with m did have "did = ''did:web:'' @ tail" by simp
    then show "startsWith did ''did:web:''" by (auto simp: startsWith_iff)
  qed
qed

lemma getWellKnownUrl_valid_web:
  "startsWith did ''did:web:'' \<Longrightarrow> \<exists>url. getWellKnownUrl did = Inr url"
  by (simp add: getWellKnownUrl_def Let_def)

section \<open>Lemmas: numbers as decimal strings\<close>

lemma digit_value_digit_char: "d < 10 \<Longrightarrow> digit_value (digit_char d) = Some d"
  by (simp add: digit_value_def digit_char_def Let_def)

lemma is_digit_digit_char: "d < 10 \<Longrightarrow> is_digit 10 (digit_char d)"
  by (simp add: is_digit_def digit_value_digit_char)

lemma digit_char_not_special:
  assumes "d < 10"
  shows "\<not> isWhiteSpace (digit_char d)" "digit_char d \<noteq> CHR ''-''" "digit_char d \<noteq> CHR ''+''"
proof -
  have v: "(of_char (digit_char d) :: nat) = 48 + d"
    using assms by (simp add: digit_char_def)
  show "\<not> isWhiteSpace (digit_char d)"
    using assms by (simp add: isWhiteSpace_def v)
  show "digit_char d \<noteq> CHR ''-''"
  proof
    assume "digit_char d = CHR ''-''"
    then have "(of_char (digit_char d) :: nat) = of_char CHR ''-''" by simp
    with v show False by simp
  qed
  show "digit_char d \<noteq> CHR ''+''"
  proof
    assume "digit_char d = CHR ''+''"
    then have "(of_char (digit_char d) :: nat) = of_char CHR ''+''" by simp
    with v show False by simp
  qed
qed

lemma nat_toString_digits: "c \<in> set (nat_toString n) \<Longrightarrow> \<exists>d < 10. c = digit_char d"
proof (induction n arbitrary: c rule: nat_toString.induct)
  case (1 n)
  show ?case
  proof (cases "n < 10")
    case True
    with "1.prems" show ?thesis by (subst (asm) nat_toString.simps) auto
  next
    case False
    with "1.prems" have "c \<in> set (nat_toString (n div 10)) \<or> c = digit_char (n mod 10)"
      by (subst (asm) nat_toString.simps) auto
    then show ?thesis
    proof
      assume "c \<in> set (nat_toString (n div 10))"
      with "1.IH"[OF False] show ?thesis by blast
    next
      assume "c = digit_char (n mod 10)"
      moreover have "n mod 10 < 10" by simp
      ultimately show ?thesis by blast
    qed
  qed
qed

lemma nat_toString_nonempty: "nat_toString n \<noteq> []"
  by (subst nat_toString.simps) simp

lemma nat_toString_hd: "\<exists>d < 10. hd (nat_toString n) = digit_char d"
  using nat_toString_digits[of "hd (nat_toString n)" n] nat_toString_nonempty[of n]
  by simp

lemma digits_value_snoc:
  "digits_value r (Z @ [c]) = digits_value r Z * r + (case digit_value c of None \<Rightarrow> 0 | Some d \<Rightarrow> d)"
  by (simp add: digits_value_def)

lemma digits_value_nat_toString: "digits_value 10 (nat_toString n) = n"
proof (induction n rule: nat_toString.induct)
  case (1 n)
  show ?case
  proof (cases "n < 10")
    case True
    then show ?thesis
      by (subst nat_toString.simps) (simp add: digits_value_def digit_value_digit_char)
  next
    case False
    have "n mod 10 < 10" by simp
    then have dv: "digit_value (digit_char (n mod 10)) = Some (n mod 10)"
      by (rule digit_value_digit_char)
    from False show ?thesis
      by (subst nat_toString.simps) (simp add: digits_value_snoc "1.IH" dv)
  qed
qed

lemma takeWhile_nat_toString: "takeWhile (is_digit 10) (nat_toString n) = nat_toString n"
proof -
  have "\<forall>c \<in> set (nat_toString n). is_digit 10 c"
    using nat_toString_digits is_digit_digit_char by blast
  then show ?thesis by (simp add: takeWhile_eq_all_conv)
qed

lemma parseInt_nat_toString: "parseInt (nat_toString n) (Some 10) = Some (int n)"
proof -
  from nat_toString_hd[of n] obtain d where d: "d < 10" "hd (nat_toString n) = digit_char d"
    by blast
  from nat_toString_nonempty[of n] obtain c cs where cs: "nat_toString n = c # cs"
    by (cases "nat_toString n") auto
  with d have c: "c = digit_char d" by simp
  have ws: "dropWhile isWhiteSpace (nat_toString n) = nat_toString n"
    using cs c digit_char_not_special(1)[OF d(1)] by simp
  have sg: "c \<noteq> CHR ''-''" "c \<noteq> CHR ''+''"
    using c digit_char_not_special[OF d(1)] by simp_all
  show ?thesis
    unfolding parseInt_def ws Let_def
    using sg cs takeWhile_nat_toString[of n] digits_value_nat_toString[of n] by simp
qed

lemma parseInt_minus_digits:
  assumes "ds \<noteq> []" "\<forall>c \<in> set ds. is_digit 10 c"
  shows "parseInt (CHR ''-'' # ds) (Some 10) = Some (- int (digits_value 10 ds))"
proof -
  have tw: "takeWhile (is_digit 10) ds = ds"
    using assms(2) by (simp add: takeWhile_eq_all_conv)
  show ?thesis
    unfolding parseInt_def Let_def using assms(1) by (simp add: isWhiteSpace_def tw)
qed

lemma parseInt_number_toString: "parseInt (number_toString n) (Some 10) = Some n"
proof (cases "n < 0")
  case False
  then show ?thesis
    by (simp add: number_toString_def parseInt_nat_toString)
next
  case True
  let ?ds = "nat_toString (nat (- n))"
  have "\<forall>c \<in> set ?ds. is_digit 10 c"
    using nat_toString_digits is_digit_digit_char by blast
  from parseInt_minus_digits[OF nat_toString_nonempty this]
  have "parseInt (CHR ''-'' # ?ds) (Some 10) = Some (- int (nat (- n)))"
    by (simp only: digits_value_nat_toString)
  with True show ?thesis by (simp add: number_toString_def)
qed

lemma number_toString_nonempty: "number_toString n \<noteq> []"
  by (simp add: number_toString_def nat_toString_nonempty)

section \<open>Lemmas: signed requests\<close>







section \<open>Lemmas: header lookup and timestamp parsing\<close>






lemma getHeader_name_case:
  "toLowerCase name = toLowerCase name' \<Longrightarrow> getHeader h name = getHeader h name'"
  by (induction h) auto






lemma verifyRequest_parsed:
  "getHeader h ''X-Agent-Signature'' = Some s \<Longrightarrow> s \<noteq> [] \<Longrightarrow>
   getHeader h ''X-Agent-Timestamp'' = Some x \<Longrightarrow> x \<noteq> [] \<Longrightarrow>
   parseInt x (Some 10) = Some t \<Longrightarrow>
   verifyRequest P now h pk body tol =
     (if \<bar>now - t\<bar> > (case tol of None \<Rightarrow> DEFAULT_TOLERANCE_MS | Some v \<Rightarrow> v)
      then \<lparr>ver_valid = False, ver_error = Some ''Timestamp outside tolerance window'',
            expiredTimestamp = Some True\<rparr>
      else if verifySignature P
                (utf8_encode (createCanonicalString P now
                   \<lparr>req_method = (case getHeader h ''X-Agent-Method'' of
                                     None \<Rightarrow> ''POST'' | Some m \<Rightarrow> m),
                    req_url = (case getHeader h ''X-Agent-URL'' of None \<Rightarrow> ''/'' | Some u \<Rightarrow> u),
                    req_body = body, req_timestamp = Some t\<rparr>))
                (base64urlDecode s) pk
           then \<lparr>ver_valid = True, ver_error = None, expiredTimestamp = None\<rparr>
           else verification_failure ''Invalid signature'')"
  unfolding verifyRequest_def Let_def by simp



section \<open>Lemmas: verification against the registry\<close>

lemma select_single_Data:
  "select_single db table k = Data row \<longleftrightarrow> fault db = None \<and> table k = Some row"
  by (auto simp: select_single_def split: option.splits)

lemma verifyAgentSignature_inactive:
  assumes "fault db = None" "agents db did = Some row" "row_status row \<noteq> active"
  shows "verifyAgentSignature P now db did signature message timestamp =
           (\<lparr>vr_valid = False, vr_agent = Some (rowToAgent did row),
             vr_error = Some (''Agent is '' @ status_text (row_status row))\<rparr>, db)"
proof -
  have sel: "select_single db (agents db) did = Data row"
    using assms by (simp add: select_single_Data)
  have st: "agent_status (rowToAgent did row) = row_status row"
    by (simp add: rowToAgent_def)
  show ?thesis
    using assms(3) by (simp add: verifyAgentSignature_def sel Let_def st)
qed

lemma verifyAgentSignature_replay:
  assumes "fault db = None" "agents db did = Some row" "row_status row = active"
    and "signature_cache db (bytesToHex (sha256 P (utf8_encode signature))) = Some cached"
  shows "verifyAgentSignature P now db did signature message timestamp =
           (\<lparr>vr_valid = False, vr_agent = Some (rowToAgent did row),
             vr_error = Some ''Signature already used (replay attack detected)''\<rparr>, db)"
proof -
  have sel: "select_single db (agents db) did = Data row"
    using assms by (simp add: select_single_Data)
  have st: "agent_status (rowToAgent did row) = active"
    using assms(3) by (simp add: rowToAgent_def)
  have hit: "select_single db (signature_cache db)
               (bytesToHex (sha256 P (utf8_encode signature))) = Data cached"
    using assms by (simp add: select_single_Data)
  show ?thesis
    by (simp add: verifyAgentSignature_def sel Let_def st hit)
qed

lemma verifyAgentSignature_no_agent:
  assumes "select_single db (agents db) did = QueryError code msg"
  shows "\<not> vr_valid (fst (verifyAgentSignature P now db did signature message timestamp))"
    and "snd (verifyAgentSignature P now db did signature message timestamp) = db"
  unfolding verifyAgentSignature_def assms by simp_all

text \<open>A valid result: the agent is active, the hash was not cached, and it is cached now.\<close>

lemma verifyAgentSignature_valid:
  assumes "vr_valid (fst (verifyAgentSignature P now db did signature message timestamp))"
  obtains row instant where
    "fault db = None" "agents db did = Some row" "row_status row = active"
    "signature_cache db (bytesToHex (sha256 P (utf8_encode signature))) = None"
    "toISOString (parseInt timestamp None) = Some instant"
    "snd (verifyAgentSignature P now db did signature message timestamp)
       = db\<lparr>signature_cache := (signature_cache db)
            (bytesToHex (sha256 P (utf8_encode signature)) \<mapsto>
               \<lparr>cache_agent_did = did, cache_timestamp = instant, cache_created_at = now\<rparr>)\<rparr>"
proof -
  let ?R = "verifyAgentSignature P now db did signature message timestamp"
  let ?hash = "bytesToHex (sha256 P (utf8_encode signature))"
  obtain row where sel: "select_single db (agents db) did = Data row"
    using assms verifyAgentSignature_no_agent(1)[of db did _ _ P now signature message timestamp]
    by (cases "select_single db (agents db) did") auto
  then have f: "fault db = None" and a: "agents db did = Some row"
    by (simp_all add: select_single_Data)
  have st: "row_status row = active"
    using assms verifyAgentSignature_inactive[OF f a, of P now signature message timestamp]
    by (cases "row_status row = active") auto
  have miss: "signature_cache db ?hash = None"
  proof (cases "signature_cache db ?hash")
    case None
    then show ?thesis .
  next
    case (Some cached)
    from verifyAgentSignature_replay[OF f a st Some, of now message timestamp] assms
    show ?thesis by simp
  qed
  have ast: "agent_status (rowToAgent did row) = active"
    using st by (simp add: rowToAgent_def)
  have nohit: "select_single db (signature_cache db) ?hash
                 = QueryError ''PGRST116'' ''JSON object requested, multiple (or no) rows returned''"
    using f miss by (simp add: select_single_def)
  let ?pairs = "hexPairs (agent_publicKey (rowToAgent did row))"
  let ?res = "verifyRequest P now
                [(''x-agent-signature'', signature), (''x-agent-timestamp'', timestamp)]
                (map (\<lambda>byte. toUint8 (parseInt byte (Some 16))) ?pairs) (Some message) None"
  have R: "?R =
     (case ?pairs of
        [] \<Rightarrow> (\<lparr>vr_valid = False, vr_agent = Some (rowToAgent did row),
                 vr_error = Some ''Invalid public key format''\<rparr>, db)
      | pair # pairs \<Rightarrow>
          if \<not> ver_valid ?res
          then (\<lparr>vr_valid = False, vr_agent = Some (rowToAgent did row),
                 vr_error = Some (case ver_error ?res of
                                    None \<Rightarrow> ''Signature verification failed''
                                  | Some e \<Rightarrow> if e = [] then ''Signature verification failed''
                                              else e)\<rparr>, db)
          else (case toISOString (parseInt timestamp None) of
                  None \<Rightarrow> (\<lparr>vr_valid = False, vr_agent = Some (rowToAgent did row),
                            vr_error = Some ''Invalid time value''\<rparr>, db)
                | Some instant \<Rightarrow>
                    (\<lparr>vr_valid = True, vr_agent = Some (rowToAgent did row), vr_error = None\<rparr>,
                     insert_signature_cache db ?hash
                       \<lparr>cache_agent_did = did, cache_timestamp = instant,
                        cache_created_at = now\<rparr>)))"
    by (cases ?pairs) (simp_all add: verifyAgentSignature_def sel Let_def ast nohit)
  from assms R obtain instant where inst: "toISOString (parseInt timestamp None) = Some instant"
    and snd: "snd ?R = insert_signature_cache db ?hash
                \<lparr>cache_agent_did = did, cache_timestamp = instant, cache_created_at = now\<rparr>"
    by (cases ?pairs; cases "ver_valid ?res"; cases "toISOString (parseInt timestamp None)")
       simp_all
  have "snd ?R = db\<lparr>signature_cache := (signature_cache db)
            (?hash \<mapsto> \<lparr>cache_agent_did = did, cache_timestamp = instant,
                        cache_created_at = now\<rparr>)\<rparr>"
    using snd f miss by (simp add: insert_signature_cache_def)
  with f a st miss inst show ?thesis using that by blast
qed

lemma verifyAgentSignature_cached_invalid:
  assumes "signature_cache db (bytesToHex (sha256 P (utf8_encode signature))) \<noteq> None"
  shows "\<not> vr_valid (fst (verifyAgentSignature P now db did signature message timestamp))"
proof
  assume "vr_valid (fst (verifyAgentSignature P now db did signature message timestamp))"
  then obtain row instant where
    "signature_cache db (bytesToHex (sha256 P (utf8_encode signature))) = None"
    by (rule verifyAgentSignature_valid)
  with assms show False by simp
qed

lemma lower_names:
  "toLowerCase ''X-Agent-Signature'' = ''x-agent-signature''"
  "toLowerCase ''X-Agent-Timestamp'' = ''x-agent-timestamp''"
  "toLowerCase ''X-Agent-Method'' = ''x-agent-method''"
  "toLowerCase ''X-Agent-URL'' = ''x-agent-url''"
  "toLowerCase ''x-agent-signature'' = ''x-agent-signature''"
  "toLowerCase ''x-agent-timestamp'' = ''x-agent-timestamp''"
  by code_simp+

lemma getHeader_registry:
  "getHeader [(''x-agent-signature'', s), (''x-agent-timestamp'', t)] ''X-Agent-Signature'' = Some s"
  "getHeader [(''x-agent-signature'', s), (''x-agent-timestamp'', t)] ''X-Agent-Timestamp'' = Some t"
  "getHeader [(''x-agent-signature'', s), (''x-agent-timestamp'', t)] ''X-Agent-Method'' = None"
  "getHeader [(''x-agent-signature'', s), (''x-agent-timestamp'', t)] ''X-Agent-URL'' = None"
  by (simp_all add: lower_names)

lemma nat_toString_no_prefix:
  "\<not> startsWith (nat_toString n) ''0x''" "\<not> startsWith (nat_toString n) ''0X''"
proof -
  have x: "c \<in> set (nat_toString n) \<Longrightarrow> c \<noteq> CHR ''x'' \<and> c \<noteq> CHR ''X''" for c
  proof -
    assume "c \<in> set (nat_toString n)"
    then obtain d where d: "d < 10" "c = digit_char d" using nat_toString_digits by blast
    then have "(of_char c :: nat) = 48 + d" by (simp add: digit_char_def)
    with d(1) show ?thesis by auto
  qed
  show "\<not> startsWith (nat_toString n) ''0x''"
  proof
    assume "startsWith (nat_toString n) ''0x''"
    then obtain r where "nat_toString n = ''0x'' @ r" by (auto simp: startsWith_iff)
    then have "CHR ''x'' \<in> set (nat_toString n)" by simp
    with x show False by blast
  qed
  show "\<not> startsWith (nat_toString n) ''0X''"
  proof
    assume "startsWith (nat_toString n) ''0X''"
    then obtain r where "nat_toString n = ''0X'' @ r" by (auto simp: startsWith_iff)
    then have "CHR ''X'' \<in> set (nat_toString n)" by simp
    with x show False by blast
  qed
qed

lemma parseInt_digits_auto:
  assumes "ds \<noteq> []" "\<forall>c \<in> set ds. is_digit 10 c"
    "\<not> startsWith ds ''0x''" "\<not> startsWith ds ''0X''"
    "\<not> isWhiteSpace (hd ds)" "hd ds \<noteq> CHR ''-''" "hd ds \<noteq> CHR ''+''"
  shows "parseInt ds None = Some (int (digits_value 10 ds))"
    and "parseInt (CHR ''-'' # ds) None = Some (- int (digits_value 10 ds))"
proof -
  have tw: "takeWhile (is_digit 10) ds = ds"
    using assms(2) by (simp add: takeWhile_eq_all_conv)
  have dw: "dropWhile isWhiteSpace ds = ds"
    using assms(1,5) by (cases ds) auto
  show "parseInt ds None = Some (int (digits_value 10 ds))"
    unfolding parseInt_def Let_def dw using assms(1,3,4,6,7) by (simp add: tw)
  show "parseInt (CHR ''-'' # ds) None = Some (- int (digits_value 10 ds))"
    unfolding parseInt_def Let_def using assms by (simp add: isWhiteSpace_def tw)
qed

lemma parseInt_number_toString_auto: "parseInt (number_toString n) None = Some n"
proof -
  let ?ds = "\<lambda>k. nat_toString k"
  have props: "?ds k \<noteq> []" "\<forall>c \<in> set (?ds k). is_digit 10 c"
    "\<not> startsWith (?ds k) ''0x''" "\<not> startsWith (?ds k) ''0X''"
    "\<not> isWhiteSpace (hd (?ds k))" "hd (?ds k) \<noteq> CHR ''-''" "hd (?ds k) \<noteq> CHR ''+''" for k
  proof -
    show "?ds k \<noteq> []" by (rule nat_toString_nonempty)
    show "\<forall>c \<in> set (?ds k). is_digit 10 c"
      using nat_toString_digits is_digit_digit_char by blast
    show "\<not> startsWith (?ds k) ''0x''" "\<not> startsWith (?ds k) ''0X''"
      by (rule nat_toString_no_prefix)+
    from nat_toString_hd[of k] obtain d where "d < 10" "hd (?ds k) = digit_char d" by blast
    with digit_char_not_special[of d]
    show "\<not> isWhiteSpace (hd (?ds k))" "hd (?ds k) \<noteq> CHR ''-''" "hd (?ds k) \<noteq> CHR ''+''"
      by simp_all
  qed
  show ?thesis
  proof (cases "n < 0")
    case False
    with parseInt_digits_auto(1)[OF props, of "nat n"] show ?thesis
      by (simp add: number_toString_def digits_value_nat_toString)
  next
    case True
    with parseInt_digits_auto(2)[OF props, of "nat (- n)"] show ?thesis
      by (simp add: number_toString_def digits_value_nat_toString)
  qed
qed

text \<open>The registry accepts a fresh, timely signature of an active agent.\<close>

lemma verifyAgentSignature_accepts:
  assumes db: "fault db = None" "agents db did = Some row" "row_status row = active"
    and miss: "signature_cache db (bytesToHex (sha256 P (utf8_encode signature))) = None"
    and key: "hexPairs (row_public_key row) \<noteq> []"
      "pk = map (\<lambda>byte. toUint8 (parseInt byte (Some 16))) (hexPairs (row_public_key row))"
    and keypair: "\<forall>m. ed25519_verify P (signMessage P m sk) m pk = Some True"
      "\<forall>m. length (signMessage P m sk) = 64"
    and sig: "signature = base64urlEncode (signMessage P
                (utf8_encode (createCanonicalString P T
                   \<lparr>req_method = ''POST'', req_url = ''/'', req_body = Some message,
                    req_timestamp = Some T\<rparr>)) sk)"
    and time: "\<bar>now - T\<bar> \<le> DEFAULT_TOLERANCE_MS" "\<bar>T\<bar> \<le> 8640000000000000"
  shows "verifyAgentSignature P now db did signature message (number_toString T) =
           (\<lparr>vr_valid = True, vr_agent = Some (rowToAgent did row), vr_error = None\<rparr>,
            db\<lparr>signature_cache := (signature_cache db)
                 (bytesToHex (sha256 P (utf8_encode signature)) \<mapsto>
                    \<lparr>cache_agent_did = did, cache_timestamp = T, cache_created_at = now\<rparr>)\<rparr>)"
proof -
  let ?hash = "bytesToHex (sha256 P (utf8_encode signature))"
  let ?canon = "createCanonicalString P T
                   \<lparr>req_method = ''POST'', req_url = ''/'', req_body = Some message,
                    req_timestamp = Some T\<rparr>"
  let ?hs = "[(''x-agent-signature'', signature), (''x-agent-timestamp'', number_toString T)]"
  have sel: "select_single db (agents db) did = Data row"
    using db by (simp add: select_single_Data)
  have ast: "agent_status (rowToAgent did row) = active"
       "agent_publicKey (rowToAgent did row) = row_public_key row"
    using db by (simp_all add: rowToAgent_def)
  have nohit: "select_single db (signature_cache db) ?hash
                 = QueryError ''PGRST116'' ''JSON object requested, multiple (or no) rows returned''"
    using db miss by (simp add: select_single_def)
  have ne: "signature \<noteq> []"
    unfolding sig using keypair(2) by (intro base64urlEncode_nonempty) (metis length_0_conv zero_neq_numeral)
  have canon: "createCanonicalString P now
          \<lparr>req_method = ''POST'', req_url = ''/'', req_body = Some message,
           req_timestamp = Some T\<rparr> = ?canon"
    by (simp add: createCanonicalString_def)
  have ok: "verifySignature P (utf8_encode ?canon) (base64urlDecode signature) pk"
    unfolding sig base64url_roundtrip using keypair(1) by (simp add: verifySignature_def)
  have parsed: "verifyRequest P now ?hs pk (Some message) None =
     (if \<bar>now - T\<bar> > (case None of None \<Rightarrow> DEFAULT_TOLERANCE_MS | Some v \<Rightarrow> v)
      then \<lparr>ver_valid = False, ver_error = Some ''Timestamp outside tolerance window'',
            expiredTimestamp = Some True\<rparr>
      else if verifySignature P
                (utf8_encode (createCanonicalString P now
                   \<lparr>req_method = (case getHeader ?hs ''X-Agent-Method'' of
                                     None \<Rightarrow> ''POST'' | Some m \<Rightarrow> m),
                    req_url = (case getHeader ?hs ''X-Agent-URL'' of None \<Rightarrow> ''/'' | Some u \<Rightarrow> u),
                    req_body = Some message, req_timestamp = Some T\<rparr>))
                (base64urlDecode signature) pk
           then \<lparr>ver_valid = True, ver_error = None, expiredTimestamp = None\<rparr>
           else verification_failure ''Invalid signature'')"
    by (rule verifyRequest_parsed[OF getHeader_registry(1) ne getHeader_registry(2)
          number_toString_nonempty parseInt_number_toString])
  have res: "verifyRequest P now ?hs pk (Some message) None
               = \<lparr>ver_valid = True, ver_error = None, expiredTimestamp = None\<rparr>"
    unfolding parsed getHeader_registry(3,4) using time(1) ok
    by (simp add: canon)
  have iso: "toISOString (parseInt (number_toString T) None) = Some T"
    using time(2) by (simp add: parseInt_number_toString_auto toISOString_def)
  obtain pair pairs where pairs: "hexPairs (row_public_key row) = pair # pairs"
    using key(1) by (cases "hexPairs (row_public_key row)") auto
  have ins: "insert_signature_cache db ?hash
               \<lparr>cache_agent_did = did, cache_timestamp = T, cache_created_at = now\<rparr>
             = db\<lparr>signature_cache := (signature_cache db)
                 (?hash \<mapsto> \<lparr>cache_agent_did = did, cache_timestamp = T,
                             cache_created_at = now\<rparr>)\<rparr>"
    using db miss by (simp add: insert_signature_cache_def)
  have res': "verifyRequest P now ?hs
               (map (\<lambda>byte. toUint8 (parseInt byte (Some 16))) (pair # pairs)) (Some message) None
               = \<lparr>ver_valid = True, ver_error = None, expiredTimestamp = None\<rparr>"
    using res key(2) pairs by simp
  then have res'': "verifyRequest P now ?hs
               (toUint8 (parseInt pair (Some 16))
                  # map (\<lambda>byte. toUint8 (parseInt byte (Some 16))) pairs) (Some message) None
               = \<lparr>ver_valid = True, ver_error = None, expiredTimestamp = None\<rparr>"
    by simp
  show ?thesis
    by (simp add: verifyAgentSignature_def sel Let_def ast nohit pairs res'' iso ins)
qed

section \<open>Lemmas: the credit ledger\<close>

lemma recordCreditEvent_applied:
  assumes "fault db = None" "agents db did = Some row"
    and "int4 (event_amount event)" "int4 (row_credits row + event_amount event)"
  shows "recordCreditEvent db new_id now did event =
     Inr (\<lparr>entry_id = new_id, entry_agentId = row_id row, entry_type = None,
           entry_amount = event_amount event,
           entry_balanceAfter = max 0 (row_credits row + event_amount event),
           entry_reason = event_reason event,
           entry_prUrl = (case event_prUrl event of
                            None \<Rightarrow> None | Some u \<Rightarrow> if u = [] then None else Some u),
           entry_createdAt = now\<rparr>,
          db\<lparr>agents := (agents db)
                (did \<mapsto> row\<lparr>row_credits := max 0 (row_credits row + event_amount event)\<rparr>),
             credit_ledger := credit_ledger db @
               [\<lparr>ledger_id = new_id, ledger_agent_id = row_id row,
                 ledger_event_type = event_type event, ledger_amount = event_amount event,
                 ledger_balance_after = max 0 (row_credits row + event_amount event),
                 ledger_reason = event_reason event,
                 ledger_pr_url = (case event_prUrl event of
                                    None \<Rightarrow> None | Some u \<Rightarrow> if u = [] then None else Some u),
                 ledger_created_at = now\<rparr>]\<rparr>)"
  using assms
  by (simp add: recordCreditEvent_def record_credit_event_atomic_def rowToLedgerEntry_def Let_def)




text \<open>
  Every serial schedule of events of amount 1 for one agent adds the number of its calls to
  the balance and to the number of ledger rows, as long as the balance stays in the range of
  the column.
\<close>

lemma recordCreditEvents_serial:
  assumes "fault db = None" "agents db did = Some row" "0 \<le> row_credits row"
    and "\<forall>(new_id, now, event) \<in> set calls. event_amount event = 1"
    and "row_credits row + int (length calls) \<le> 2147483647"
  shows "\<exists>db'. recordCreditEvents db did calls = Inr db'
           \<and> map_option row_credits (agents db' did)
               = Some (row_credits row + int (length calls))
           \<and> length (credit_ledger db') = length (credit_ledger db) + length calls"
  using assms
proof (induction calls arbitrary: db row)
  case Nil
  then show ?case by simp
next
  case (Cons call calls)
  obtain new_id now event where call: "call = (new_id, now, event)"
    by (cases call) auto
  from Cons.prems(4) call have one: "event_amount event = 1" by simp
  let ?row = "row\<lparr>row_credits := max 0 (row_credits row + 1)\<rparr>"
  from Cons.prems(3,5) have range: "int4 (event_amount event)"
      "int4 (row_credits row + event_amount event)"
    by (simp_all add: int4_def one)
  obtain entry db1 where step: "recordCreditEvent db new_id now did event = Inr (entry, db1)"
      and db1: "db1 = db\<lparr>agents := (agents db)(did \<mapsto> ?row),
                 credit_ledger := credit_ledger db @
                   [\<lparr>ledger_id = new_id, ledger_agent_id = row_id row,
                     ledger_event_type = event_type event, ledger_amount = event_amount event,
                     ledger_balance_after = max 0 (row_credits row + event_amount event),
                     ledger_reason = event_reason event,
                     ledger_pr_url = (case event_prUrl event of
                        None \<Rightarrow> None | Some u \<Rightarrow> if u = [] then None else Some u),
                     ledger_created_at = now\<rparr>]\<rparr>"
    using recordCreditEvent_applied [OF Cons.prems(1,2) range, of new_id now]
    by (simp add: one)
  have "fault db1 = None" "agents db1 did = Some ?row" "0 \<le> row_credits ?row"
    using Cons.prems(1) by (simp_all add: db1)
  moreover have "\<forall>(new_id, now, event) \<in> set calls. event_amount event = 1"
    using Cons.prems(4) by simp
  moreover have "row_credits ?row + int (length calls) \<le> 2147483647"
    using Cons.prems(3,5) by simp
  ultimately obtain db' where rest: "recordCreditEvents db1 did calls = Inr db'"
      "map_option row_credits (agents db' did) = Some (row_credits ?row + int (length calls))"
      "length (credit_ledger db') = length (credit_ledger db1) + length calls"
    using Cons.IH [of db1 ?row] by blast
  have "recordCreditEvents db did (call # calls) = Inr db'"
    by (simp add: call step rest(1))
  moreover have "row_credits ?row + int (length calls)
      = row_credits row + int (length (call # calls))"
    using Cons.prems(3) by simp
  moreover have "length (credit_ledger db1) + length calls
      = length (credit_ledger db) + length (call # calls)"
    by (simp add: db1)
  ultimately show ?case using rest(2,3) by (auto simp: add.assoc)
qed

section \<open>The claims\<close>

text \<open>
  C5. Round trip of the key and byte codecs. For every 32-byte public key \<open>k\<close>,
  \<open>multibaseToPublicKey (publicKeyToMultibase k)\<close> returns \<open>k\<close>. For every byte string \<open>b\<close>,
  URL-safe base64 decoding of the URL-safe base64 encoding of \<open>b\<close> gives \<open>b\<close> back; the
  encoding contains no padding character, and the decoder accepts the padded standard form
  as well. Base58 decoding of the base58 encoding of \<open>b\<close> gives \<open>b\<close> back, whatever the
  number of leading zero bytes.
\<close>

theorem C5_codec_roundtrip:
  "(length k = 32 \<longrightarrow> multibaseToPublicKey (publicKeyToMultibase k) = Inr k)
   \<and> base64urlDecode (base64urlEncode b) = b
   \<and> CHR ''='' \<notin> set (base64urlEncode b)
   \<and> from_base64 (to_base64 b) = b
   \<and> decodeBase58 (encodeBase58 b) = Inr b
   \<and> decodeBase58 (encodeBase58 (replicate z 0 @ b)) = Inr (replicate z 0 @ b)"
proof -
  have "from_base64 (to_base64 b) = b"
    unfolding to_base64_sextets
    by (simp only: from_base64_padded[OF sextets_of_sextet] decode_groups_sextets)
  then show ?thesis
    by (simp add: multibase_roundtrip base64url_roundtrip base64urlEncode_no_padding
        decodeBase58_encodeBase58)
qed

theorem C5_codec_roundtrip_witness:
  "length (replicate 32 (1::byte)) = 32
   \<and> multibaseToPublicKey (publicKeyToMultibase (replicate 32 1)) = Inr (replicate 32 1)
   \<and> base64urlDecode (base64urlEncode [0, 0, 255]) = [0, 0, 255]
   \<and> decodeBase58 (encodeBase58 (replicate 2 0 @ [0, 0, 255])) = Inr (replicate 2 0 @ [0, 0, 255])"
  using C5_codec_roundtrip[of "replicate 32 1" "[0, 0, 255]" 2] by simp

text \<open>
  C6 (as stated): \<open>multibaseToPublicKey\<close> fails with \<open>InvalidMultibasePrefix\<close> without a
  leading \<open>z\<close>, fails with \<open>InvalidKeyCodec\<close> when the decoded bytes are shorter than 34 or
  do not start with \<open>0xed 0x01\<close>, and otherwise returns the trailing 32 bytes.
  The statement fails twice. A string that decodes to 35 bytes with the right tag (here
  the encoding of the tag and 33 bytes of value 1) is answered with the 33 bytes after
  the tag, not with 32 bytes; and a string with a
  character outside the base58 alphabet fails with the invalid-character error of
  \<open>decodeBase58\<close>, which is neither of the two errors named.
\<close>

theorem C6_multibaseToPublicKey_counterexample:
  "(case multibaseToPublicKey ''zQebecCe6nywSeLgfPTzVJxypBboVUWpcqU8EfVEazmiRAhs6'' of
      Inl e \<Rightarrow> None
    | Inr key \<Rightarrow> Some (length key, set key)) = Some (33, {1})
   \<and> multibaseToPublicKey ''z0'' = Inl (InvalidBase58Character CHR ''0'')"
  by (simp add: multibaseToPublicKey_def decodeBase58_def BASE58_ALPHABET_def
      num_to_bytes.simps startsWith_def)

text \<open>
  C6 (amended). For every string \<open>s\<close>: without a leading \<open>z\<close> the result is
  \<open>InvalidMultibasePrefix\<close>; when a character after the \<open>z\<close> is outside the base58
  alphabet the result is the invalid-character error for the first such character;
  otherwise \<open>s\<close> is \<open>z\<close> followed by the base58 encoding of a byte string \<open>decoded\<close>, and
  the result is \<open>InvalidKeyCodec\<close> when \<open>decoded\<close> is shorter than 34 bytes or does not
  start with \<open>0xed 0x01\<close>, and else all bytes of \<open>decoded\<close> after the two-byte tag, which
  are 32 bytes exactly when \<open>decoded\<close> has 34 bytes.
\<close>

theorem C6_multibaseToPublicKey_cases:
  "(\<not> startsWith s ''z'' \<longrightarrow> multibaseToPublicKey s = Inl InvalidMultibasePrefix)
   \<and> (startsWith s ''z'' \<and> find (\<lambda>c. c \<notin> set BASE58_ALPHABET) (drop 1 s) = Some c
        \<longrightarrow> multibaseToPublicKey s = Inl (InvalidBase58Character c))
   \<and> (startsWith s ''z'' \<and> find (\<lambda>c. c \<notin> set BASE58_ALPHABET) (drop 1 s) = None
        \<longrightarrow> (\<exists>decoded. s = CHR ''z'' # encodeBase58 decoded
               \<and> multibaseToPublicKey s =
                   (if length decoded < 34 \<or> take 2 decoded \<noteq> [0xed, 0x01]
                    then Inl InvalidKeyCodec else Inr (drop 2 decoded))
               \<and> (length (drop 2 decoded) = 32 \<longleftrightarrow> length decoded = 34)))"
proof (intro conjI impI)
  assume "\<not> startsWith s ''z''"
  then show "multibaseToPublicKey s = Inl InvalidMultibasePrefix"
    by (simp add: multibaseToPublicKey_def)
next
  assume "startsWith s ''z'' \<and> find (\<lambda>c. c \<notin> set BASE58_ALPHABET) (drop 1 s) = Some c"
  then have z: "startsWith s ''z''"
    and bad: "find (\<lambda>c. c \<notin> set BASE58_ALPHABET) (drop 1 s) = Some c" by simp_all
  from bad have "drop 1 s \<noteq> []" by auto
  with base58_to_num_find[OF bad, of 0] z
  show "multibaseToPublicKey s = Inl (InvalidBase58Character c)"
    by (simp add: multibaseToPublicKey_def decodeBase58_def)
next
  assume "startsWith s ''z'' \<and> find (\<lambda>c. c \<notin> set BASE58_ALPHABET) (drop 1 s) = None"
  then have z: "startsWith s ''z''"
    and ok: "find (\<lambda>c. c \<notin> set BASE58_ALPHABET) (drop 1 s) = None" by simp_all
  from encodeBase58_decodeBase58[OF ok] obtain decoded where
    dec: "decodeBase58 (drop 1 s) = Inr decoded" and enc: "encodeBase58 decoded = drop 1 s"
    by blast
  from z have s: "s = CHR ''z'' # drop 1 s"
    by (cases s) (simp_all add: startsWith_def)
  have tag: "34 \<le> length decoded \<Longrightarrow>
             (take 2 decoded \<noteq> [0xed, 0x01]) = (decoded ! 0 \<noteq> 0xed \<or> decoded ! 1 \<noteq> 0x01)"
  proof -
    assume "34 \<le> length decoded"
    then obtain a b rest where "decoded = a # b # rest"
      by (cases decoded; cases "tl decoded") auto
    then show ?thesis by auto
  qed
  have dec': "decodeBase58 (drop (Suc 0) s) = Inr decoded"
    using dec by simp
  have "multibaseToPublicKey s =
               (if length decoded < 34 \<or> decoded ! 0 \<noteq> 0xed \<or> decoded ! 1 \<noteq> 0x01
                then Inl InvalidKeyCodec else Inr (drop 2 decoded))"
    using z by (simp add: multibaseToPublicKey_def dec')
  then have res: "multibaseToPublicKey s =
               (if length decoded < 34 \<or> take 2 decoded \<noteq> [0xed, 0x01]
                then Inl InvalidKeyCodec else Inr (drop 2 decoded))"
    using tag by (cases "length decoded < 34") simp_all
  have len: "length (drop 2 decoded) = 32 \<longleftrightarrow> length decoded = 34"
    by auto
  from s enc res len
  show "\<exists>decoded. s = CHR ''z'' # encodeBase58 decoded
               \<and> multibaseToPublicKey s =
                   (if length decoded < 34 \<or> take 2 decoded \<noteq> [0xed, 0x01]
                    then Inl InvalidKeyCodec else Inr (drop 2 decoded))
               \<and> (length (drop 2 decoded) = 32 \<longleftrightarrow> length decoded = 34)"
    by (intro exI[of _ decoded]) simp
qed

theorem C6_multibaseToPublicKey_cases_witness:
  "\<not> startsWith ''invalid'' ''z''
   \<and> multibaseToPublicKey ''invalid'' = Inl InvalidMultibasePrefix
   \<and> startsWith ''z0'' ''z''
   \<and> find (\<lambda>c. c \<notin> set BASE58_ALPHABET) (drop 1 ''z0'') = Some CHR ''0''
   \<and> multibaseToPublicKey ''z0'' = Inl (InvalidBase58Character CHR ''0'')
   \<and> startsWith ''z123'' ''z''
   \<and> find (\<lambda>c. c \<notin> set BASE58_ALPHABET) (drop 1 ''z123'') = None
   \<and> (\<exists>decoded. ''z123'' = CHR ''z'' # encodeBase58 decoded
         \<and> multibaseToPublicKey ''z123'' =
             (if length decoded < 34 \<or> take 2 decoded \<noteq> [0xed, 0x01]
              then Inl InvalidKeyCodec else Inr (drop 2 decoded))
         \<and> (length (drop 2 decoded) = 32 \<longleftrightarrow> length decoded = 34))"
  using C6_multibaseToPublicKey_cases[of "''invalid''"]
    C6_multibaseToPublicKey_cases[of "''z0''" "CHR ''0''"]
    C6_multibaseToPublicKey_cases[of "''z123''"]
  by (simp add: startsWith_def BASE58_ALPHABET_def)

text \<open>
  C8. \<open>getWellKnownUrl\<close> maps a \<open>did:web\<close> DID with no path segment after the domain to
  \<open>https://<domain>/.well-known/did.json\<close>, and one with path segments to
  \<open>https://<domain>/<seg1>/.../did.json\<close>: the colons become path separators and
  \<open>did.json\<close> is appended. The two examples of the specification hold, and every string
  that does not start with \<open>did:web:\<close>, in particular every well-formed DID of another
  method, fails with \<open>MethodNotSupported\<close>.
\<close>

theorem C8_getWellKnownUrl:
  "(CHR '':'' \<notin> set domain \<and> list_all (\<lambda>seg. CHR '':'' \<notin> set seg) segs \<longrightarrow>
      getWellKnownUrl (''did:web:'' @ join '':'' (domain # segs)) =
        Inr (if segs = [] then ''https://'' @ domain @ ''/.well-known/did.json''
             else ''https://'' @ domain @ ''/'' @ join ''/'' segs @ ''/did.json''))
   \<and> getWellKnownUrl ''did:web:example.com'' = Inr ''https://example.com/.well-known/did.json''
   \<and> getWellKnownUrl ''did:web:example.com:agents:claude''
        = Inr ''https://example.com/agents/claude/did.json''
   \<and> (\<not> startsWith did ''did:web:'' \<longrightarrow> getWellKnownUrl did = Inl MethodNotSupported)
   \<and> (isValidDID did \<and> did_method did \<noteq> ''web'' \<longrightarrow>
        getWellKnownUrl did = Inl MethodNotSupported)"
proof (intro conjI impI)
  assume "CHR '':'' \<notin> set domain \<and> list_all (\<lambda>seg. CHR '':'' \<notin> set seg) segs"
  then show "getWellKnownUrl (''did:web:'' @ join '':'' (domain # segs)) =
        Inr (if segs = [] then ''https://'' @ domain @ ''/.well-known/did.json''
             else ''https://'' @ domain @ ''/'' @ join ''/'' segs @ ''/did.json'')"
    by (intro getWellKnownUrl_join) (simp_all add: list_all_iff)
next
  show "getWellKnownUrl ''did:web:example.com'' = Inr ''https://example.com/.well-known/did.json''"
    using getWellKnownUrl_join[of "''example.com''" "[]"] by simp
next
  show "getWellKnownUrl ''did:web:example.com:agents:claude''
        = Inr ''https://example.com/agents/claude/did.json''"
    using getWellKnownUrl_join[of "''example.com''" "[''agents'', ''claude'']"] by simp
next
  assume "\<not> startsWith did ''did:web:''"
  then show "getWellKnownUrl did = Inl MethodNotSupported"
    by (simp add: getWellKnownUrl_def)
next
  assume "isValidDID did \<and> did_method did \<noteq> ''web''"
  then have "\<not> startsWith did ''did:web:''"
    using did_method_web by blast
  then show "getWellKnownUrl did = Inl MethodNotSupported"
    by (simp add: getWellKnownUrl_def)
qed

theorem C8_getWellKnownUrl_witness:
  "CHR '':'' \<notin> set ''localhost''
   \<and> list_all (\<lambda>seg. CHR '':'' \<notin> set seg) [''3000'', ''agents'']
   \<and> getWellKnownUrl (''did:web:'' @ join '':'' [''localhost'', ''3000'', ''agents''])
        = Inr ''https://localhost/3000/agents/did.json''
   \<and> \<not> startsWith ''did:key:z6Mk'' ''did:web:''
   \<and> isValidDID ''did:key:z6Mk''
   \<and> did_method ''did:key:z6Mk'' \<noteq> ''web''
   \<and> getWellKnownUrl ''did:key:z6Mk'' = Inl MethodNotSupported"
  using C8_getWellKnownUrl[of "''localhost''" "[''3000'', ''agents'']" "''did:key:z6Mk''"]
  by (simp add: startsWith_def isValidDID_def did_method_def is_method_char_def is_id_char_def
      is_lower_def is_upper_def is_decimal_def)

text \<open>
  C4 (as stated): for a \<open>did:web\<close> DID, a successful response whose body is not valid JSON
  yields \<open>InvalidDidDocument\<close>. In the code \<open>response.json()\<close> rejects inside the
  \<open>try\<close> block, and the \<open>catch\<close> answers \<open>internalError\<close>; the same holds for a body that
  is the JSON value \<open>null\<close>, where reading \<open>id\<close> throws.
\<close>

theorem C4_resolveDID_counterexample:
  "res_error (resolveDID
      (fetch_always (Resolved \<lparr>resp_status = 200, resp_json = None,
                               resp_content_type = None, resp_last_modified = None\<rparr>))
      ''did:web:example.com'') = Some internalError
   \<and> res_error (resolveDID
      (fetch_always (Resolved \<lparr>resp_status = 200, resp_json = None,
                               resp_content_type = None, resp_last_modified = None\<rparr>))
      ''did:web:example.com'') \<noteq> Some invalidDidDocument"
  by (simp add: resolveDID_def isValidDID_def startsWith_def getWellKnownUrl_def
      fetch_always_def resp_ok_def resolution_failure_def is_method_char_def is_id_char_def
      is_lower_def is_upper_def is_decimal_def)

text \<open>
  C4 (amended). For every input string, \<open>resolveDID\<close> fails with \<open>invalidDid\<close> when the
  string fails the DID format invariant, and with \<open>methodNotSupported\<close> for a well-formed
  DID of a method other than \<open>web\<close>. For a well-formed \<open>did:web\<close> DID the well-known URL is
  fetched once, and: a transport failure yields \<open>internalError\<close>; a response outside
  200..299 yields \<open>notFound\<close> for status 404 and \<open>internalError\<close> for any other status; a
  successful response whose body is not valid JSON, or is \<open>null\<close>, yields
  \<open>internalError\<close>; a successful response with another JSON body whose \<open>id\<close> is not the
  requested DID yields \<open>invalidDidDocument\<close>; and a body whose \<open>id\<close> is the requested DID
  is returned without error.
\<close>

theorem C4_resolveDID_errors:
  "(\<not> isValidDID did \<longrightarrow> res_error (resolveDID fetch did) = Some invalidDid)
   \<and> (isValidDID did \<and> did_method did \<noteq> ''web'' \<longrightarrow>
        res_error (resolveDID fetch did) = Some methodNotSupported)
   \<and> (isValidDID did \<and> did_method did = ''web'' \<longrightarrow>
        (\<exists>url. getWellKnownUrl did = Inr url \<and>
          (case fetch url of
             Rejected \<Rightarrow> res_error (resolveDID fetch did) = Some internalError
           | Resolved r \<Rightarrow>
               if resp_status r < 200 \<or> 299 < resp_status r
               then res_error (resolveDID fetch did)
                      = Some (if resp_status r = 404 then notFound else internalError)
               else (case resp_json r of
                       None \<Rightarrow> res_error (resolveDID fetch did) = Some internalError
                     | Some JNull \<Rightarrow> res_error (resolveDID fetch did) = Some internalError
                     | Some document \<Rightarrow>
                         if get_id document = Some (Some (JString did))
                         then res_error (resolveDID fetch did) = None
                              \<and> didDocument (resolveDID fetch did) = Some document
                         else res_error (resolveDID fetch did) = Some invalidDidDocument))))"
proof (intro conjI impI)
  assume "\<not> isValidDID did"
  then show "res_error (resolveDID fetch did) = Some invalidDid"
    by (simp add: resolveDID_def resolution_failure_def)
next
  assume a: "isValidDID did \<and> did_method did \<noteq> ''web''"
  then have "\<not> startsWith did ''did:web:''" using did_method_web by blast
  with a show "res_error (resolveDID fetch did) = Some methodNotSupported"
    by (simp add: resolveDID_def resolution_failure_def)
next
  assume a: "isValidDID did \<and> did_method did = ''web''"
  then have valid: "isValidDID did" and web: "startsWith did ''did:web:''"
    using did_method_web by blast+
  from getWellKnownUrl_valid_web[OF web] obtain url where url: "getWellKnownUrl did = Inr url"
    by blast
  have "case fetch url of
             Rejected \<Rightarrow> res_error (resolveDID fetch did) = Some internalError
           | Resolved r \<Rightarrow>
               if resp_status r < 200 \<or> 299 < resp_status r
               then res_error (resolveDID fetch did)
                      = Some (if resp_status r = 404 then notFound else internalError)
               else (case resp_json r of
                       None \<Rightarrow> res_error (resolveDID fetch did) = Some internalError
                     | Some JNull \<Rightarrow> res_error (resolveDID fetch did) = Some internalError
                     | Some document \<Rightarrow>
                         if get_id document = Some (Some (JString did))
                         then res_error (resolveDID fetch did) = None
                              \<and> didDocument (resolveDID fetch did) = Some document
                         else res_error (resolveDID fetch did) = Some invalidDidDocument)"
    using valid web url
    by (auto simp: resolveDID_def resolution_failure_def resp_ok_def
        split: fetch_result.splits option.splits json.splits)
  with url show "\<exists>url. getWellKnownUrl did = Inr url \<and>
          (case fetch url of
             Rejected \<Rightarrow> res_error (resolveDID fetch did) = Some internalError
           | Resolved r \<Rightarrow>
               if resp_status r < 200 \<or> 299 < resp_status r
               then res_error (resolveDID fetch did)
                      = Some (if resp_status r = 404 then notFound else internalError)
               else (case resp_json r of
                       None \<Rightarrow> res_error (resolveDID fetch did) = Some internalError
                     | Some JNull \<Rightarrow> res_error (resolveDID fetch did) = Some internalError
                     | Some document \<Rightarrow>
                         if get_id document = Some (Some (JString did))
                         then res_error (resolveDID fetch did) = None
                              \<and> didDocument (resolveDID fetch did) = Some document
                         else res_error (resolveDID fetch did) = Some invalidDidDocument))"
    by blast
qed

theorem C4_resolveDID_errors_witness:
  "\<not> isValidDID ''invalid-did''
   \<and> res_error (resolveDID (fetch_always Rejected) ''invalid-did'') = Some invalidDid
   \<and> isValidDID ''did:key:z6Mk'' \<and> did_method ''did:key:z6Mk'' \<noteq> ''web''
   \<and> res_error (resolveDID (fetch_always Rejected) ''did:key:z6Mk'') = Some methodNotSupported
   \<and> isValidDID ''did:web:example.com'' \<and> did_method ''did:web:example.com'' = ''web''
   \<and> res_error (resolveDID (fetch_always Rejected) ''did:web:example.com'') = Some internalError
   \<and> res_error (resolveDID
        (fetch_always (Resolved \<lparr>resp_status = 404, resp_json = None,
                                 resp_content_type = None, resp_last_modified = None\<rparr>))
        ''did:web:example.com'') = Some notFound
   \<and> res_error (resolveDID
        (fetch_always (Resolved \<lparr>resp_status = 200,
           resp_json = Some (JObject [(''id'', JString ''did:web:different.com'')]),
           resp_content_type = None, resp_last_modified = None\<rparr>))
        ''did:web:example.com'') = Some invalidDidDocument"
  using C4_resolveDID_errors[of "''invalid-did''" "fetch_always Rejected"]
    C4_resolveDID_errors[of "''did:key:z6Mk''" "fetch_always Rejected"]
    C4_resolveDID_errors[of "''did:web:example.com''" "fetch_always Rejected"]
    C4_resolveDID_errors[of "''did:web:example.com''"
      "fetch_always (Resolved \<lparr>resp_status = 404, resp_json = None,
                                 resp_content_type = None, resp_last_modified = None\<rparr>)"]
    C4_resolveDID_errors[of "''did:web:example.com''"
      "fetch_always (Resolved \<lparr>resp_status = 200,
           resp_json = Some (JObject [(''id'', JString ''did:web:different.com'')]),
           resp_content_type = None, resp_last_modified = None\<rparr>)"]
  by (simp add: startsWith_def isValidDID_def did_method_def is_method_char_def is_id_char_def
      is_lower_def is_upper_def is_decimal_def fetch_always_def getWellKnownUrl_def)






text \<open>
  C1. Replay detection in \<open>verifyAgentSignature\<close>. The replay cache is keyed by the
  hexadecimal SHA-256 hash of the signature string. Whenever that hash has an entry in
  the cache, the verification of the signature string reports failure, whatever the
  cryptographic check would say; for an active agent the failure is the replay error and
  the database is left as it was. A verification that reports valid found no entry for
  the hash and leaves one under exactly that key, so that every later verification of
  the identical signature string, at any time and with any other arguments, reports
  failure.
\<close>

theorem C1_replay_detected:
  "(signature_cache db (bytesToHex (sha256 P (utf8_encode signature))) \<noteq> None \<longrightarrow>
      \<not> vr_valid (fst (verifyAgentSignature P now db did signature message timestamp)))
   \<and> (fault db = None \<and> agents db did = Some row \<and> row_status row = active
        \<and> signature_cache db (bytesToHex (sha256 P (utf8_encode signature))) \<noteq> None \<longrightarrow>
        verifyAgentSignature P now db did signature message timestamp =
          (\<lparr>vr_valid = False, vr_agent = Some (rowToAgent did row),
            vr_error = Some ''Signature already used (replay attack detected)''\<rparr>, db))
   \<and> (vr_valid (fst (verifyAgentSignature P now db did signature message timestamp)) \<longrightarrow>
        signature_cache db (bytesToHex (sha256 P (utf8_encode signature))) = None
        \<and> signature_cache (snd (verifyAgentSignature P now db did signature message timestamp))
             (bytesToHex (sha256 P (utf8_encode signature))) \<noteq> None
        \<and> dom (signature_cache (snd (verifyAgentSignature P now db did signature message timestamp)))
           = insert (bytesToHex (sha256 P (utf8_encode signature))) (dom (signature_cache db))
        \<and> \<not> vr_valid (fst (verifyAgentSignature P now'
              (snd (verifyAgentSignature P now db did signature message timestamp))
              did' signature message' timestamp')))"
proof (intro conjI impI)
  assume "signature_cache db (bytesToHex (sha256 P (utf8_encode signature))) \<noteq> None"
  then show "\<not> vr_valid (fst (verifyAgentSignature P now db did signature message timestamp))"
    by (rule verifyAgentSignature_cached_invalid)
next
  assume a: "fault db = None \<and> agents db did = Some row \<and> row_status row = active
        \<and> signature_cache db (bytesToHex (sha256 P (utf8_encode signature))) \<noteq> None"
  then obtain cached where
    "signature_cache db (bytesToHex (sha256 P (utf8_encode signature))) = Some cached"
    by auto
  with a show "verifyAgentSignature P now db did signature message timestamp =
          (\<lparr>vr_valid = False, vr_agent = Some (rowToAgent did row),
            vr_error = Some ''Signature already used (replay attack detected)''\<rparr>, db)"
    by (intro verifyAgentSignature_replay) simp_all
next
  let ?R = "verifyAgentSignature P now db did signature message timestamp"
  let ?hash = "bytesToHex (sha256 P (utf8_encode signature))"
  assume "vr_valid (fst ?R)"
  then obtain row' instant where miss: "signature_cache db ?hash = None"
    and snd: "snd ?R = db\<lparr>signature_cache := (signature_cache db)
            (?hash \<mapsto> \<lparr>cache_agent_did = did, cache_timestamp = instant,
                        cache_created_at = now\<rparr>)\<rparr>"
    by (rule verifyAgentSignature_valid)
  have hit: "signature_cache (snd ?R) ?hash \<noteq> None"
    unfolding snd by simp
  have keys: "dom (signature_cache (snd ?R)) = insert ?hash (dom (signature_cache db))"
    unfolding snd by simp
  have again: "\<not> vr_valid (fst (verifyAgentSignature P now' (snd ?R) did' signature message'
                  timestamp'))"
    using hit by (rule verifyAgentSignature_cached_invalid)
  from miss show "signature_cache db ?hash = None" .
  from hit show "signature_cache (snd ?R) ?hash \<noteq> None" .
  from keys show "dom (signature_cache (snd ?R)) = insert ?hash (dom (signature_cache db))" .
  from again show "\<not> vr_valid (fst (verifyAgentSignature P now' (snd ?R) did' signature
                  message' timestamp'))" .
qed

theorem C1_replay_detected_witness:
  "vr_valid (fst (verifyAgentSignature toy_platform 1704067200000 (toy_registry active 10)
      ''did:web:example.com'' (toy_signature 1704067200000 ''hello'') ''hello''
      (number_toString 1704067200000)))
   \<and> \<not> vr_valid (fst (verifyAgentSignature toy_platform 1704067200001
      (snd (verifyAgentSignature toy_platform 1704067200000 (toy_registry active 10)
         ''did:web:example.com'' (toy_signature 1704067200000 ''hello'') ''hello''
         (number_toString 1704067200000)))
      ''did:web:example.com'' (toy_signature 1704067200000 ''hello'') ''hello''
      (number_toString 1704067200000)))"
proof -
  let ?db = "toy_registry active 10"
  let ?row = "\<lparr>row_id = ''a1'', row_public_key = ''00ff'', row_name = ''agent'',
               row_status = active, row_credits = 10\<rparr>"
  let ?sig = "toy_signature 1704067200000 ''hello''"
  have first: "verifyAgentSignature toy_platform 1704067200000 ?db ''did:web:example.com''
                 ?sig ''hello'' (number_toString 1704067200000) =
           (\<lparr>vr_valid = True, vr_agent = Some (rowToAgent ''did:web:example.com'' ?row),
             vr_error = None\<rparr>,
            ?db\<lparr>signature_cache := (signature_cache ?db)
                 (bytesToHex (sha256 toy_platform (utf8_encode ?sig)) \<mapsto>
                    \<lparr>cache_agent_did = ''did:web:example.com'', cache_timestamp = 1704067200000,
                     cache_created_at = 1704067200000\<rparr>)\<rparr>)"
  proof (rule verifyAgentSignature_accepts[where sk = "[]"
        and pk = "map (\<lambda>byte. toUint8 (parseInt byte (Some 16))) (hexPairs ''00ff'')"])
    show "fault ?db = None" by (simp add: toy_registry_def)
    show "agents ?db ''did:web:example.com'' = Some ?row" by (simp add: toy_registry_def)
    show "row_status ?row = active" by simp
    show "signature_cache ?db (bytesToHex (sha256 toy_platform (utf8_encode ?sig))) = None"
      by (simp add: toy_registry_def)
    show "hexPairs (row_public_key ?row) \<noteq> []" by (simp add: isLineTerminator_def)
    show "map (\<lambda>byte. toUint8 (parseInt byte (Some 16))) (hexPairs ''00ff'')
          = map (\<lambda>byte. toUint8 (parseInt byte (Some 16))) (hexPairs (row_public_key ?row))"
      by simp
    show "\<forall>m. ed25519_verify toy_platform (signMessage toy_platform m [])
                m (map (\<lambda>byte. toUint8 (parseInt byte (Some 16))) (hexPairs ''00ff''))
              = Some True"
      by (simp add: toy_platform_def)
    show "\<forall>m. length (signMessage toy_platform m []) = 64"
      by (auto simp: toy_platform_def)
    show "?sig = base64urlEncode (signMessage toy_platform
                (utf8_encode (createCanonicalString toy_platform 1704067200000
                   \<lparr>req_method = ''POST'', req_url = ''/'', req_body = Some ''hello'',
                    req_timestamp = Some 1704067200000\<rparr>)) [])"
      by (simp add: toy_signature_def)
    show "\<bar>1704067200000 - 1704067200000\<bar> \<le> DEFAULT_TOLERANCE_MS"
      by (simp add: DEFAULT_TOLERANCE_MS_def)
    show "\<bar>1704067200000 :: int\<bar> \<le> 8640000000000000" by simp
  qed
  then have valid: "vr_valid (fst (verifyAgentSignature toy_platform 1704067200000 ?db
      ''did:web:example.com'' ?sig ''hello'' (number_toString 1704067200000)))"
    by simp
  from C1_replay_detected[where P = toy_platform and now = 1704067200000 and db = ?db
      and did = "''did:web:example.com''" and signature = ?sig and message = "''hello''"
      and timestamp = "number_toString 1704067200000" and now' = 1704067200001
      and did' = "''did:web:example.com''" and message' = "''hello''"
      and timestamp' = "number_toString 1704067200000"] valid
  show ?thesis by blast
qed

text \<open>
  C10. For an agent record whose status is not \<open>active\<close>, that is \<open>suspended\<close> or
  \<open>revoked\<close>, \<open>verifyAgentSignature\<close> returns \<open>valid: false\<close> with the agent and the error
  \<open>Agent is <status>\<close> and leaves the database as it was. The result is the same for
  every signature, message, timestamp, clock, content of the replay cache and signature
  primitive: neither the replay-cache lookup nor the cryptographic check has a part in
  it. A verification that reports valid was made for an agent whose status is \<open>active\<close>.
\<close>

theorem C10_inactive_agent:
  "(fault db = None \<and> agents db did = Some row \<and> row_status row \<noteq> active \<longrightarrow>
      verifyAgentSignature P now db did signature message timestamp =
        (\<lparr>vr_valid = False, vr_agent = Some (rowToAgent did row),
          vr_error = Some (''Agent is '' @ status_text (row_status row))\<rparr>, db)
      \<and> verifyAgentSignature P' now' (db\<lparr>signature_cache := cache'\<rparr>) did signature'
            message' timestamp' =
        (\<lparr>vr_valid = False, vr_agent = Some (rowToAgent did row),
          vr_error = Some (''Agent is '' @ status_text (row_status row))\<rparr>,
         db\<lparr>signature_cache := cache'\<rparr>))
   \<and> (vr_valid (fst (verifyAgentSignature P now db did signature message timestamp)) \<longrightarrow>
        (\<exists>r. agents db did = Some r \<and> row_status r = active))
   \<and> ((row_status row \<noteq> active) = (row_status row = suspended \<or> row_status row = revoked))"
proof (intro conjI impI)
  assume a: "fault db = None \<and> agents db did = Some row \<and> row_status row \<noteq> active"
  then show "verifyAgentSignature P now db did signature message timestamp =
        (\<lparr>vr_valid = False, vr_agent = Some (rowToAgent did row),
          vr_error = Some (''Agent is '' @ status_text (row_status row))\<rparr>, db)"
    by (intro verifyAgentSignature_inactive) simp_all
  from a show "verifyAgentSignature P' now' (db\<lparr>signature_cache := cache'\<rparr>) did signature'
            message' timestamp' =
        (\<lparr>vr_valid = False, vr_agent = Some (rowToAgent did row),
          vr_error = Some (''Agent is '' @ status_text (row_status row))\<rparr>,
         db\<lparr>signature_cache := cache'\<rparr>)"
    by (intro verifyAgentSignature_inactive) simp_all
next
  assume "vr_valid (fst (verifyAgentSignature P now db did signature message timestamp))"
  then obtain r instant where "agents db did = Some r" "row_status r = active"
    by (rule verifyAgentSignature_valid)
  then show "\<exists>r. agents db did = Some r \<and> row_status r = active" by blast
next
  show "(row_status row \<noteq> active) = (row_status row = suspended \<or> row_status row = revoked)"
    by (cases "row_status row") simp_all
qed

theorem C10_inactive_agent_witness:
  "fault (toy_registry suspended 10) = None
   \<and> agents (toy_registry suspended 10) ''did:web:example.com''
       = Some \<lparr>row_id = ''a1'', row_public_key = ''00ff'', row_name = ''agent'',
               row_status = suspended, row_credits = 10\<rparr>
   \<and> verifyAgentSignature toy_platform 1704067200000 (toy_registry suspended 10)
        ''did:web:example.com'' (toy_signature 1704067200000 ''hello'') ''hello''
        (number_toString 1704067200000)
      = (\<lparr>vr_valid = False,
          vr_agent = Some \<lparr>agent_id = ''a1'', agent_did = ''did:web:example.com'',
                           agent_publicKey = ''00ff'', agent_name = ''agent'',
                           agent_status = suspended, agent_credits = 10\<rparr>,
          vr_error = Some ''Agent is suspended''\<rparr>,
         toy_registry suspended 10)"
  using C10_inactive_agent[where db = "toy_registry suspended 10"
      and did = "''did:web:example.com''"
      and row = "\<lparr>row_id = ''a1'', row_public_key = ''00ff'', row_name = ''agent'',
               row_status = suspended, row_credits = 10\<rparr>"
      and P = toy_platform and now = 1704067200000
      and signature = "toy_signature 1704067200000 ''hello''" and message = "''hello''"
      and timestamp = "number_toString 1704067200000"]
  by (simp add: toy_registry_def rowToAgent_def)




end
